theory Spec2Isabelle
  imports Complex_Main "HOL-Library.Word" "HOL-Library.Char_ord" "HOL-Library.List_Lexorder"
    "HOL-Library.Sublist" "HOL-Library.Multiset"
begin

unbundle bit_operations_syntax

section \<open>ColorDir: a shallow embedding of c.cpp and hdir.h\<close>

text \<open>
  The program lists one directory, classifies every entry by its extension, sorts the
  entries and renders them in a detailed or a multi-column layout. The embedding follows
  the source function by function. Standard output is a \<open>string\<close> of bytes, the
  process ends with an exit status or aborts, and everything the program reads from its
  surroundings (the directory tree, the terminal size, \<open>fnmatch\<close>) is an explicit
  argument.
\<close>

subsection \<open>File types (hdir.h, enum class FileType)\<close>

datatype FileType =
  Programming | Text | Video | Picture | Hidden | Executable | Compressed | Other

text \<open>The underlying value of each enumerator, which \<open>typeA < typeB\<close> compares.\<close>

fun ordinal :: "FileType \<Rightarrow> nat" where
  "ordinal Programming = 0"
| "ordinal Text = 1"
| "ordinal Video = 2"
| "ordinal Picture = 3"
| "ordinal Hidden = 4"
| "ordinal Executable = 5"
| "ordinal Compressed = 6"
| "ordinal Other = 7"

subsection \<open>Directory entries\<close>

text \<open>
  A directory entry as the program sees it through \<open>stat\<close>, which follows symbolic
  links: its file name, the \<open>st_mode\<close> word (\<open>None\<close> when \<open>stat\<close> fails, as for a
  dangling symbolic link), the size in bytes (\<open>uintmax_t\<close>), the last modification time
  as \<open>std::put_time\<close> prints it, whether the entry itself is a symbolic link, and for a
  directory its entries in the order \<open>fs::directory_iterator\<close> yields them. A symbolic link
  to a directory carries the entries of its target. The tree is finite: a cycle of
  symbolic links, on which the recursive lister would not come to an end, is not modelled.
\<close>

datatype node =
  Node (name: string) (st_mode: "32 word option") (st_size: "64 word") (mtime: string)
    (is_symlink: bool) (children: "node list")

datatype failure = DivisionByZero | FilesystemError

definition S_IFMT :: "32 word" where "S_IFMT = 0xF000"
definition S_IFDIR :: "32 word" where "S_IFDIR = 0x4000"
definition S_IFREG :: "32 word" where "S_IFREG = 0x8000"
definition S_IRUSR :: "32 word" where "S_IRUSR = 0x100"
definition S_IWUSR :: "32 word" where "S_IWUSR = 0x80"
definition S_IXUSR :: "32 word" where "S_IXUSR = 0x40"
definition S_IRGRP :: "32 word" where "S_IRGRP = 0x20"
definition S_IWGRP :: "32 word" where "S_IWGRP = 0x10"
definition S_IXGRP :: "32 word" where "S_IXGRP = 0x8"
definition S_IROTH :: "32 word" where "S_IROTH = 0x4"
definition S_IWOTH :: "32 word" where "S_IWOTH = 0x2"
definition S_IXOTH :: "32 word" where "S_IXOTH = 0x1"

definition is_directory :: "node \<Rightarrow> bool" where
  "is_directory e = (case st_mode e of None \<Rightarrow> False | Some m \<Rightarrow> m AND S_IFMT = S_IFDIR)"

definition is_regular_file :: "node \<Rightarrow> bool" where
  "is_regular_file e = (case st_mode e of None \<Rightarrow> False | Some m \<Rightarrow> m AND S_IFMT = S_IFREG)"

text \<open>\<open>entry.file_size()\<close> throws for anything that is not a regular file.\<close>

definition file_size :: "node \<Rightarrow> failure + 64 word" where
  "file_size e = (if is_regular_file e then Inr (st_size e) else Inl FilesystemError)"

text \<open>\<open>entry.last_write_time()\<close> throws when the entry cannot be examined.\<close>

definition last_write_time :: "node \<Rightarrow> failure + string" where
  "last_write_time e = (case st_mode e of None \<Rightarrow> Inl FilesystemError | Some m \<Rightarrow> Inr (mtime e))"

subsection \<open>Strings\<close>

text \<open>
  \<open>::tolower\<close> in the C locale (the program never calls \<open>setlocale\<close>): the upper-case
  ASCII letters move down by 32, every other byte stays.
\<close>

definition tolower :: "char \<Rightarrow> char" where
  "tolower c = (if CHR ''A'' \<le> c \<and> c \<le> CHR ''Z'' then char_of (of_char c + (32::nat)) else c)"

definition toLower :: "string \<Rightarrow> string" where
  "toLower str = map tolower str"

text \<open>
  \<open>path::extension\<close> of a file name: the part from the rightmost period on, unless the
  name is dot or dot-dot, has no period, or has its only period in front.
\<close>

definition extension :: "string \<Rightarrow> string" where
  "extension fn =
     (let tail_rev = takeWhile (\<lambda>c. c \<noteq> CHR ''.'') (rev fn) in
      if fn = ''.'' \<or> fn = ''..'' \<or> CHR ''.'' \<notin> set fn then ''''
      else if Suc (length tail_rev) = length fn then ''''
      else CHR ''.'' # rev tail_rev)"

subsection \<open>categorizeFile (c.cpp)\<close>

definition programmingExtensions :: "string list" where
  "programmingExtensions =
     [''.cpp'', ''.h'', ''.py'', ''.java'', ''.cs'', ''.js'', ''.php'', ''.hs'', ''.rs'',
      ''.clj'', ''.sh'', ''.pl'', ''.lua'', ''.erl'', ''.ex'', ''.exs'', ''.scala'', ''.d'',
      ''.go'', ''.nim'', ''.lisp'', ''.cl'', ''.f90'', ''.f95'', ''.vhdl'', ''.verilog'',
      ''.coffee'', ''.racket'', ''.dart'', ''.tcl'', ''.hlsl'']"

definition textExtensions :: "string list" where
  "textExtensions =
     [''.txt'', ''.md'', ''.rtf'', ''.log'', ''.ini'', ''.conf'', ''.config'', ''.nfo'',
      ''.readme'', ''.html'', ''.htm'', ''.bak'', ''.asc'', ''.diff'', ''.lst'', ''.srt'',
      ''.mdown'', ''.text'', ''.out'', ''.memo'', ''.patch'', ''.logfile'', ''.po'', ''.dat'',
      ''.env'', ''.sh'', ''.doc'']"

definition videoExtensions :: "string list" where
  "videoExtensions =
     [''.mp4'', ''.mkv'', ''.avi'', ''.mov'', ''.wmv'', ''.flv'', ''.webm'', ''.mpeg'',
      ''.mpg'', ''.m4v'', ''.3gp'', ''.ogv'', ''.vob'', ''.ts'', ''.m2ts'', ''.divx'', ''.rm'',
      ''.rmvb'', ''.asf'', ''.swf'', ''.mxf'', ''.hevc'', ''.avchd'', ''.mts'', ''.ogm'',
      ''.amv'', ''.drc'', ''.yuv'', ''.h264'', ''.h265'']"

definition pictureExtensions :: "string list" where
  "pictureExtensions =
     [''.jpg'', ''.jpeg'', ''.png'', ''.gif'', ''.bmp'', ''.tiff'', ''.tif'', ''.webp'',
      ''.svg'', ''.ico'', ''.raw'', ''.xpm'', ''.ppm'', ''.pgm'', ''.pbm'', ''.heic'',
      ''.heif'']"

definition compressedExtensions :: "string list" where
  "compressedExtensions =
     [''.zip'', ''.tar'', ''.gz'', ''.bz2'', ''.xz'', ''.7z'', ''.rar'', ''.zst'', ''.lz4'',
      ''.tar.gz'', ''.tar.bz2'', ''.tar.xz'', ''.tgz'', ''.tbz2'', ''.txz'', ''.tar.zst'',
      ''.tzst'', ''.tar.lz4'', ''.tlz4'', ''.jar'', ''.war'', ''.ear'', ''.cab'', ''.deb'',
      ''.rpm'', ''.apk'', ''.dmg'', ''.iso'', ''.img'', ''.appimage'']"

definition owner_exec :: "node \<Rightarrow> bool" where
  "owner_exec e = (case st_mode e of None \<Rightarrow> False | Some m \<Rightarrow> m AND S_IXUSR \<noteq> 0)"

definition categorizeFile :: "node \<Rightarrow> FileType" where
  "categorizeFile entry =
     (let ext = toLower (extension (name entry)) in
      if is_regular_file entry then
        if ext \<in> set programmingExtensions then Programming
        else if ext \<in> set textExtensions then Text
        else if ext \<in> set videoExtensions then Video
        else if ext \<in> set pictureExtensions then Picture
        else if ext \<in> set compressedExtensions then Compressed
        else if owner_exec entry then Executable
        else Other
      else Other)"

subsection \<open>formatSize (hdir.h)\<close>

text \<open>\<open>std::to_string\<close> of an unsigned integer: its decimal digits.\<close>

function to_string :: "nat \<Rightarrow> string" where
  "to_string n =
     (if n < 10 then [char_of (48 + n)]
      else to_string (n div 10) @ [char_of (48 + n mod 10)])"
  by pat_completeness auto
termination
  by (relation "measure id") auto

declare to_string.simps [simp del]

text \<open>
  A \<open>double\<close> is modelled by the real number it denotes. The only doubles of
  \<open>formatSize\<close> are the converted byte count and its quotients by 1024. The conversion
  \<open>double reducedSize = size\<close> of a 64-bit count rounds to 53 significant bits, ties to
  even; dividing a double by 1024 is exact (a power of two, far from underflow).
\<close>

function bit_width :: "nat \<Rightarrow> nat" where
  "bit_width n = (if n = 0 then 0 else Suc (bit_width (n div 2)))"
  by pat_completeness auto
termination
  by (relation "measure id") auto

declare bit_width.simps [simp del]

definition round53 :: "nat \<Rightarrow> nat" where
  "round53 n =
     (if n < 2 ^ 53 then n
      else
        let e = bit_width n - 53;
            q = n div 2 ^ e;
            r = n mod 2 ^ e;
            h = 2 ^ (e - 1)
        in (if h < r \<or> (r = h \<and> odd q) then q + 1 else q) * 2 ^ e)"

definition to_double :: "64 word \<Rightarrow> real" where
  "to_double w = of_nat (round53 (unat w))"

text \<open>The loop \<open>while (reducedSize >= 1024) { reducedSize /= 1024; unitIndex++; }\<close>.\<close>

function reduceLoop :: "real \<Rightarrow> int \<Rightarrow> real \<times> int" where
  "reduceLoop reducedSize unitIndex =
     (if 1024 \<le> reducedSize then reduceLoop (reducedSize / 1024) (unitIndex + 1)
      else (reducedSize, unitIndex))"
  by pat_completeness auto
termination
proof (relation "measure (\<lambda>(r, i). nat \<lfloor>r\<rfloor>)")
  show "wf (measure (\<lambda>(r::real, i::int). nat \<lfloor>r\<rfloor>))" by simp
next
  fix reducedSize :: real and unitIndex :: int
  assume big: "1024 \<le> reducedSize"
  have "reducedSize / 1024 \<le> reducedSize - 1" using big by simp
  then have "\<lfloor>reducedSize / 1024\<rfloor> \<le> \<lfloor>reducedSize - 1\<rfloor>" by (rule floor_mono)
  moreover have "1024 \<le> \<lfloor>reducedSize\<rfloor>" using big by (simp add: le_floor_iff)
  ultimately show "((reducedSize / 1024, unitIndex + 1), (reducedSize, unitIndex))
      \<in> measure (\<lambda>(r, i). nat \<lfloor>r\<rfloor>)"
    by simp
qed

declare reduceLoop.simps [simp del]

text \<open>
  \<open>std::to_string\<close> of a non-negative double prints it as \<open>printf\<close> does with
  \<open>%f\<close>: the value rounded to six decimals (the exact value, ties to even), the integer
  part, a period and six digits.
\<close>

definition round_half_even :: "real \<Rightarrow> int" where
  "round_half_even x =
     (let f = \<lfloor>x\<rfloor>; d = x - of_int f in
      if d < 1 / 2 then f
      else if 1 / 2 < d then f + 1
      else if even f then f else f + 1)"

definition pad6 :: "nat \<Rightarrow> string" where
  "pad6 m = replicate (6 - length (to_string m)) CHR ''0'' @ to_string m"

definition to_string_double :: "real \<Rightarrow> string" where
  "to_string_double x =
     (let n = nat (round_half_even (x * 1000000)) in
      to_string (n div 1000000) @ ''.'' @ pad6 (n mod 1000000))"

definition baseUnits :: "string list" where
  "baseUnits = [''KB'', ''MB'', ''GB'', ''TB'', ''PB'', ''EB'', ''ZB'', ''YB'']"

text \<open>
  The choice of the unit after the loop. \<open>'Z' + (unitIndex - 6)\<close> is computed in
  \<open>int\<close> and narrowed to a \<open>char\<close>.
\<close>

definition unitLabel :: "int \<Rightarrow> string" where
  "unitLabel unitIndex =
     (if unitIndex < 7 then baseUnits ! nat unitIndex
      else [char_of (90 + (unitIndex - 6))] @ ''B'')"

definition formatSize :: "64 word \<Rightarrow> string" where
  "formatSize sz =
     (if sz < 1024 then to_string (unat sz) @ '' B''
      else
        let (reducedSize, unitIndex) = reduceLoop (to_double sz) (- 1) in
        take 5 (to_string_double reducedSize) @ '' '' @ unitLabel unitIndex)"

text \<open>The two variables of \<open>formatSize\<close> when its loop has ended.\<close>

definition reducedSizeOf :: "64 word \<Rightarrow> real" where
  "reducedSizeOf sz = fst (reduceLoop (to_double sz) (- 1))"

definition unitIndexOf :: "64 word \<Rightarrow> int" where
  "unitIndexOf sz = snd (reduceLoop (to_double sz) (- 1))"

subsection \<open>Terminal output\<close>

definition endl :: string where
  "endl = [CHR 0x0A]"

definition reset :: string where
  "reset = [CHR 0x1B] @ ''[0m''"

text \<open>\<open>std::setw(n) << std::left\<close>: the text, filled with spaces on the right up to width n.\<close>

definition setw_left :: "nat \<Rightarrow> string \<Rightarrow> string" where
  "setw_left n s = s @ replicate (n - length s) CHR '' ''"

text \<open>\<open>std::to_string\<close> of an \<open>int\<close>.\<close>

definition to_string_int :: "int \<Rightarrow> string" where
  "to_string_int i = (if i < 0 then ''-'' @ to_string (nat (- i)) else to_string (nat i))"

subsection \<open>showAboutScreen and displaySummary (hdir.h)\<close>

definition showAboutScreen :: string where
  "showAboutScreen = concat
     [[CHR 0x1B] @ ''[0;31m'',
      ''  ____      _            ____  _      _ '' @ endl,
      [CHR 0x1B] @ ''[0;33m'',
      '' / ___|___ | | ___  _ __|  _ '' @ [CHR 0x5C] @ ''(_)_ __| |'' @ endl,
      [CHR 0x1B] @ ''[0;32m'',
      ''| |   / _ '' @ [CHR 0x5C] @ ''| |/ _ '' @ [CHR 0x5C] @ ''| '' @ [CHR 0x27] @ ''__| | | | | '' @ [CHR 0x27] @ ''__| |'' @ endl,
      [CHR 0x1B] @ ''[0;36m'',
      ''| |__| (_) | | (_) | |  | |_| | | |  |_|'' @ endl,
      [CHR 0x1B] @ ''[1;35m'',
      '' '' @ [CHR 0x5C] @ ''____'' @ [CHR 0x5C] @ ''___/|_|'' @ [CHR 0x5C] @ ''___/|_|  |____/|_|_|  (_)'' @ endl,
      [CHR 0x1B] @ ''[1;34m'',
      ''           !!About ColorDir. v. beta 0.3'' @ endl,
      [CHR 0x1B] @ ''[0;36m'',
      ''This program lists directory contents with color coding.'' @ endl,
      ''History:'' @ endl,
      ''About 30 years ago, I discovered HDIR, a simple tool that brought color to my directory listings in DOS.'' @ endl,
      ''I loved it then, and today, I set out to create a tribute to it: ColorDir.'' @ endl,
      ''Not as a replacement for ls and its deeper functionalities,'' @ endl,
      ''but as both a nostalgic homage and an aesthetically pleasing way to view files, wrapped in the colors of the past.'' @ endl,
      ''Best regards '' @ [CHR 0xF0, CHR 0x9F, CHR 0x92, CHR 0x8C] @ '' endre@neset.love'' @ endl,
      endl,
      '' -l, --list       Force list view.'' @ endl,
      '' -w, --wide       Force columns view.'' @ endl,
      '' -t, --total      Display total size of directories, and subdirectories.'' @ endl,
      '' -r, --recursive  Recursive listing.'' @ endl,
      '' -p, --pause      Pause after each screen of output.'' @ endl,
      '' -h, --help       Display this screen.'' @ endl,
      endl,
      ''Usage: c [flags] [directory] [pattern, must be inside quotes '' @ [CHR 0x22, CHR 0x22] @ '' and must contain at least one * or ?]'' @ endl,
      ''Examples:'' @ endl,
      ''1. List all files in the current directory (default):       c'' @ endl,
      ''2. List all files recursively with detailed listing:        c -r -l'' @ endl,
      ''3. List files in wide format, recursively:                  c -r -w'' @ endl,
      ''4. List all .txt files recursively:                         c -r '' @ [CHR 0x22] @ ''*.txt'' @ [CHR 0x22] @ endl,
      ''5. List .txt files in /home/user/docs directory:            c /home/user/docs '' @ [CHR 0x22] @ ''*.txt'' @ [CHR 0x22] @ endl,
      ''6. List .log files in /var/log directory:                   c /var/log '' @ [CHR 0x22] @ ''*.log'' @ [CHR 0x22] @ endl,
      ''7. List files in /usr, paused for viewing, recursively:     c -p -r /usr'' @ endl,
      ''8. List .config files in /etc directory recursively:        c -r /etc '' @ [CHR 0x22] @ ''*.config'' @ [CHR 0x22] @ endl,
      ''9. List all files containing an x:                          c  '' @ [CHR 0x22] @ ''*[x]*'' @ [CHR 0x22] @ endl,
      ''10. List files that do not contain a number:                c '' @ [CHR 0x22] @ ''*[!0-9]*'' @ [CHR 0x22] @ endl,
      [CHR 0x1B] @ ''[0m'']"

record counters =
  totalFiles :: int
  totalDirs :: int
  totalSizeShown :: "64 word"

text \<open>The rule above the summary has one three-byte dash for every character but one.\<close>

definition displaySummary :: "counters \<Rightarrow> string" where
  "displaySummary c =
     (let totalSummaryString =
            ''Total: Files: '' @ to_string_int (totalFiles c) @
            '' | Dirs: '' @ to_string_int (totalDirs c) @
            '' | Size: '' @ formatSize (totalSizeShown c) @ endl
      in [CHR 0x1B] @ ''[1;33m'' @
         concat (replicate (length totalSummaryString - 1) [CHR 0xE2, CHR 0x94, CHR 0x80]) @
         reset @ endl @ totalSummaryString)"

subsection \<open>getPermissions, getColor, calculateDirectorySize (c.cpp)\<close>

definition getPermissions :: "node \<Rightarrow> string" where
  "getPermissions e =
     (case st_mode e of
        None \<Rightarrow> ''?????????''
      | Some m \<Rightarrow>
          [if m AND S_IFMT = S_IFDIR then CHR ''d'' else CHR ''-'',
           if m AND S_IRUSR \<noteq> 0 then CHR ''r'' else CHR ''-'',
           if m AND S_IWUSR \<noteq> 0 then CHR ''w'' else CHR ''-'',
           if m AND S_IXUSR \<noteq> 0 then CHR ''x'' else CHR ''-'',
           if m AND S_IRGRP \<noteq> 0 then CHR ''r'' else CHR ''-'',
           if m AND S_IWGRP \<noteq> 0 then CHR ''w'' else CHR ''-'',
           if m AND S_IXGRP \<noteq> 0 then CHR ''x'' else CHR ''-'',
           if m AND S_IROTH \<noteq> 0 then CHR ''r'' else CHR ''-'',
           if m AND S_IWOTH \<noteq> 0 then CHR ''w'' else CHR ''-'',
           if m AND S_IXOTH \<noteq> 0 then CHR ''x'' else CHR ''-''])"

fun getColor :: "FileType \<Rightarrow> bool \<Rightarrow> string" where
  "getColor ftype True = [CHR 0x1B] @ ''[1;34m''"
| "getColor Programming False = [CHR 0x1B] @ ''[0;36m''"
| "getColor Text False = [CHR 0x1B] @ ''[0;32m''"
| "getColor Video False = [CHR 0x1B] @ ''[0;35m''"
| "getColor Picture False = [CHR 0x1B] @ ''[0;33m''"
| "getColor Compressed False = [CHR 0x1B] @ ''[1;31m''"
| "getColor Hidden False = [CHR 0x1B] @ ''[1;30m''"
| "getColor Executable False = [CHR 0x1B] @ ''[1;36m''"
| "getColor Other False = [CHR 0x1B] @ ''[0m''"

text \<open>
  The sum of the sizes of the regular files below a directory, as
  \<open>fs::recursive_directory_iterator\<close> visits them: it follows a symbolic link to a file
  when it asks for the type and the size, and it does not descend into a directory that
  is a symbolic link (\<open>follow_directory_symlink\<close> is not set). \<open>uintmax_t\<close> addition
  wraps.
\<close>

fun calculateDirectorySize :: "node \<Rightarrow> 64 word" where
  "calculateDirectorySize (Node nm md sz mt lnk entries) =
     sum_list (map (\<lambda>entry.
         (if is_regular_file entry then st_size entry else 0) +
         (if is_directory entry \<and> \<not> is_symlink entry then calculateDirectorySize entry
          else 0)) entries)"

subsection \<open>printEntry (c.cpp)\<close>

text \<open>
  The glyph in front of a name, as the bytes of the string literals in c.cpp. The same
  \<open>switch\<close> stands in \<open>printEntry\<close> and in \<open>displayMultiColumn\<close>.
\<close>

fun emojiOf :: "bool \<Rightarrow> FileType \<Rightarrow> string" where
  "emojiOf True ftype =
     [CHR 0xEF, CHR 0xA3, CHR 0xBF, CHR 0xC3, CHR 0xBC, CHR 0xC3, CHR 0xAC, CHR 0xC3, CHR 0x87] @ '' ''"
| "emojiOf False Programming =
     [CHR 0xEF, CHR 0xA3, CHR 0xBF, CHR 0xC3, CHR 0xBC, CHR 0xC3, CHR 0xAD, CHR 0xC2, CHR 0xAA] @ '' ''"
| "emojiOf False Text =
     [CHR 0xEF, CHR 0xA3, CHR 0xBF, CHR 0xC3, CHR 0xBC, CHR 0xC3, CHR 0xAC, CHR 0xC3, CHR 0xBA] @ '' ''"
| "emojiOf False Video =
     [CHR 0xEF, CHR 0xA3, CHR 0xBF, CHR 0xC3, CHR 0xBC, CHR 0xC3, CHR 0xA9, CHR 0xC2, CHR 0xA8] @ '' ''"
| "emojiOf False Picture =
     [CHR 0xEF, CHR 0xA3, CHR 0xBF, CHR 0xC3, CHR 0xBC, CHR 0xC3, CHR 0xB1, CHR 0xC2, CHR 0xBA,
      CHR 0xC3, CHR 0x94, CHR 0xE2, CHR 0x88, CHR 0x8F, CHR 0xC3, CHR 0xA8] @ '' ''"
| "emojiOf False Executable =
     [CHR 0xE2, CHR 0x80, CHR 0x9A, CHR 0xC3, CHR 0xB6, CHR 0xC3, CHR 0xB4, CHR 0xC3, CHR 0x94,
      CHR 0xE2, CHR 0x88, CHR 0x8F, CHR 0xC3, CHR 0xA8] @ '' ''"
| "emojiOf False Compressed =
     [CHR 0xEF, CHR 0xA3, CHR 0xBF, CHR 0xC3, CHR 0xBC, CHR 0xC3, CHR 0xA9, CHR 0xC3, CHR 0x85] @ '' ''"
| "emojiOf False ftype =
     [CHR 0xEF, CHR 0xA3, CHR 0xBF, CHR 0xC3, CHR 0xBC, CHR 0xC3, CHR 0xAC, CHR 0xC3, CHR 0x91] @ '' ''"

text \<open>\<open>name[0] == '.'\<close>; the first character of an empty \<open>std::string\<close> is the null byte.\<close>

definition isHidden :: "node \<Rightarrow> bool" where
  "isHidden entry = (case name entry of [] \<Rightarrow> False | c # cs \<Rightarrow> c = CHR ''.'')"

text \<open>
  The text \<open>printEntry\<close> writes for a directory when \<open>showTotalSize\<close> is set (lines
  191 to 195).
\<close>

definition totalColumn :: "node \<Rightarrow> string" where
  "totalColumn entry =
     '' '' @ setw_left 10 (formatSize (calculateDirectorySize entry)) @ '' (total)''"

definition printEntry :: "node \<Rightarrow> bool \<Rightarrow> failure + (string \<times> 64 word)" where
  "printEntry entry showTotalSize =
     (let isDirectory = is_directory entry;
          ftype = (if isDirectory then Other else categorizeFile entry);
          color = (if isHidden entry then [CHR 0x1B] @ ''[1;30m'' else getColor ftype isDirectory);
          head = emojiOf isDirectory ftype @ color @ setw_left 20 (name entry) @
                 '' '' @ getPermissions entry;
          size1 = (if is_regular_file entry then st_size entry else 0);
          col1 = (if is_regular_file entry then '' '' @ setw_left 10 (formatSize size1) else []);
          size2 = (if isDirectory \<and> showTotalSize then calculateDirectorySize entry else size1);
          col2 = (if isDirectory \<and> showTotalSize then totalColumn entry else [])
      in if \<not> isDirectory then
           (case last_write_time entry of
              Inl f \<Rightarrow> Inl f
            | Inr t \<Rightarrow> Inr (head @ col1 @ col2 @ '' '' @ t @ reset @ endl, size2))
         else Inr (head @ col1 @ col2 @ reset @ endl, size2))"

text \<open>The loop \<open>for (const auto& entry : allEntries) printEntry(...)\<close>; the sizes are dropped.\<close>

fun printEntries :: "node list \<Rightarrow> bool \<Rightarrow> failure + string" where
  "printEntries [] showTotalSize = Inr []"
| "printEntries (entry # rest) showTotalSize =
     (case printEntry entry showTotalSize of
        Inl f \<Rightarrow> Inl f
      | Inr (out, sz) \<Rightarrow>
          (case printEntries rest showTotalSize of
             Inl f \<Rightarrow> Inl f
           | Inr out' \<Rightarrow> Inr (out @ out')))"

subsection \<open>displayMultiColumn (c.cpp)\<close>

text \<open>One cell of the grid: the body of \<open>if (index < numEntries)\<close>.\<close>

definition cell :: "node \<Rightarrow> string" where
  "cell entry =
     (let isDirectory = is_directory entry;
          hidden = isHidden entry;
          ftype = (if isDirectory then Other else categorizeFile entry);
          color = (if hidden then [CHR 0x1B] @ ''[1;30m'' else getColor ftype isDirectory);
          shown = (if 15 < length (name entry)
                   then take 14 (name entry) @ [CHR 0x1B] @ ''[1;33m>'' @ [CHR 0x1B] @ ''[0m''
                   else name entry)
      in color @ emojiOf isDirectory ftype @ setw_left 15 shown @ reset)"

text \<open>
  \<open>ws_col\<close> is the \<open>unsigned short\<close> of \<open>struct winsize\<close>. The division by
  \<open>numColumns\<close> is an \<open>int\<close> division: by zero it is undefined, and the process is
  killed.
\<close>

definition gridRow :: "node list \<Rightarrow> int \<Rightarrow> int \<Rightarrow> string" where
  "gridRow entries numColumns row =
     concat (map (\<lambda>col. let index = row * numColumns + col in
                          if index < int (length entries) then cell (entries ! nat index) else [])
                 [0..numColumns - 1]) @ endl"

definition displayMultiColumn :: "16 word \<Rightarrow> node list \<Rightarrow> failure + string" where
  "displayMultiColumn wscol entries =
     (let maxWidth = (if 0 < wscol then uint wscol else 80);
          columnWidth = 17;
          numColumns = maxWidth div (columnWidth + 1);
          numEntries = int (length entries)
      in if numColumns = 0 then Inl DivisionByZero
         else
           let numRows = (numEntries + numColumns - 1) div numColumns
           in Inr (concat (map (gridRow entries numColumns) [0..numRows - 1])))"

subsection \<open>listDirectoryContents (c.cpp)\<close>

text \<open>
  \<open>std::sort\<close> with a comparison function. The standard promises a permutation in which
  no element is less than an earlier one. The library's \<open>std::sort\<close> is an insertion
  sort on ranges of up to 16 elements: it takes the elements in their order and puts each
  behind those that are not greater, so elements that compare equal keep the order in which
  they came. That insertion sort stands for \<open>std::sort\<close>; on longer ranges the library may
  order equal elements otherwise, and nothing below depends on their order there.
\<close>

fun insert_sorted :: "('a \<Rightarrow> 'a \<Rightarrow> bool) \<Rightarrow> 'a \<Rightarrow> 'a list \<Rightarrow> 'a list" where
  "insert_sorted lt x [] = [x]"
| "insert_sorted lt x (y # ys) =
     (if lt x y then x # y # ys else y # insert_sorted lt x ys)"

definition std_sort :: "('a \<Rightarrow> 'a \<Rightarrow> bool) \<Rightarrow> 'a list \<Rightarrow> 'a list" where
  "std_sort lt xs = foldl (\<lambda>sorted x. insert_sorted lt x sorted) [] xs"

text \<open>The two comparison lambdas.\<close>

definition directoryLess :: "node \<Rightarrow> node \<Rightarrow> bool" where
  "directoryLess a b = (toLower (name a) < toLower (name b))"

definition fileLess :: "node \<Rightarrow> node \<Rightarrow> bool" where
  "fileLess a b =
     (let typeA = categorizeFile a; typeB = categorizeFile b in
      if typeA \<noteq> typeB then ordinal typeA < ordinal typeB
      else toLower (name a) < toLower (name b))"

text \<open>
  The first loop, over the entries of the directory. \<open>fnmatch\<close> is the C library's; it
  enters as the predicate "the pattern matches the name".
\<close>

fun scanLoop :: "(string \<Rightarrow> string \<Rightarrow> bool) \<Rightarrow> string \<Rightarrow> bool \<Rightarrow> bool \<Rightarrow> node list \<Rightarrow>
    node list \<times> node list \<times> counters \<Rightarrow> failure + node list \<times> node list \<times> counters" where
  "scanLoop fnm pattern recursive showTotalSize [] acc = Inr acc"
| "scanLoop fnm pattern recursive showTotalSize (entry # rest) (directories, files, c) =
     (if pattern \<noteq> [] \<and> \<not> fnm pattern (name entry) then
        scanLoop fnm pattern recursive showTotalSize rest (directories, files, c)
      else if is_directory entry then
        scanLoop fnm pattern recursive showTotalSize rest
          (directories @ [entry], files,
           c\<lparr>totalDirs := totalDirs c + 1,
             totalSizeShown :=
               (if showTotalSize \<and> \<not> recursive
                then totalSizeShown c + calculateDirectorySize entry
                else totalSizeShown c)\<rparr>)
      else
        (case file_size entry of
           Inl f \<Rightarrow> Inl f
         | Inr sz \<Rightarrow>
             scanLoop fnm pattern recursive showTotalSize rest
               (directories, files @ [entry],
                c\<lparr>totalFiles := totalFiles c + 1, totalSizeShown := totalSizeShown c + sz\<rparr>)))"

text \<open>
  The test of the layout. \<open>allEntries.size()\<close> is a 64-bit unsigned number, and
  \<open>screenHeight - 3\<close> is converted to one before the comparison.
\<close>

definition useMultiColumn :: "bool \<Rightarrow> bool \<Rightarrow> nat \<Rightarrow> int \<Rightarrow> bool" where
  "useMultiColumn forceList forceWide numEntries screenHeight =
     (\<not> forceList \<and>
      (forceWide \<or> (word_of_int (screenHeight - 3) :: 64 word) < word_of_nat numEntries))"

definition displayEntries :: "16 word \<Rightarrow> node list \<Rightarrow> bool \<Rightarrow> bool \<Rightarrow> bool \<Rightarrow> bool \<Rightarrow> int \<Rightarrow>
    failure + string" where
  "displayEntries wscol allEntries recursive showTotalSize forceList forceWide screenHeight =
     (if useMultiColumn forceList forceWide (length allEntries) screenHeight
      then displayMultiColumn wscol allEntries
      else printEntries allEntries (showTotalSize \<and> \<not> recursive))"

text \<open>\<open>dir.path()\<close> of an entry found under \<open>path\<close>.\<close>

definition entryPath :: "string \<Rightarrow> node \<Rightarrow> string" where
  "entryPath path entry =
     (if path = [] \<or> last path = CHR ''/'' then path @ name entry
      else path @ ''/'' @ name entry)"

text \<open>What the program reads from its surroundings.\<close>

record env =
  ws_row :: "16 word"
  ws_col :: "16 word"
  fnmatch :: "string \<Rightarrow> string \<Rightarrow> bool"
  lookup :: "string \<Rightarrow> node option"

function listDirectoryContents :: "env \<Rightarrow> string \<Rightarrow> node \<Rightarrow> string \<Rightarrow> bool \<Rightarrow> bool \<Rightarrow> bool \<Rightarrow> bool \<Rightarrow>
    counters \<Rightarrow> int \<Rightarrow> failure + string \<times> counters"
  and listSubdirectories :: "env \<Rightarrow> string \<Rightarrow> node list \<Rightarrow> string \<Rightarrow> bool \<Rightarrow> bool \<Rightarrow> bool \<Rightarrow> bool \<Rightarrow>
    counters \<Rightarrow> int \<Rightarrow> failure + string \<times> counters" where
  "listDirectoryContents e path dirNode pattern recursive showTotalSize forceList forceWide c
      screenHeight =
     (case scanLoop (fnmatch e) pattern recursive showTotalSize (children dirNode) ([], [], c) of
        Inl f \<Rightarrow> Inl f
      | Inr (directories0, files0, c1) \<Rightarrow>
          let directories = std_sort directoryLess directories0;
              files = std_sort fileLess files0;
              allEntries = directories @ files
          in case displayEntries (ws_col e) allEntries recursive showTotalSize forceList forceWide
                    screenHeight of
               Inl f \<Rightarrow> Inl f
             | Inr out \<Rightarrow>
                 if recursive then
                   (case listSubdirectories e path directories pattern recursive showTotalSize
                           forceList forceWide c1 screenHeight of
                      Inl f \<Rightarrow> Inl f
                    | Inr (out', c2) \<Rightarrow> Inr (out @ out', c2))
                 else Inr (out, c1))"
| "listSubdirectories e path [] pattern recursive showTotalSize forceList forceWide c
      screenHeight = Inr ([], c)"
| "listSubdirectories e path (dir # dirs) pattern recursive showTotalSize forceList forceWide c
      screenHeight =
     (case listDirectoryContents e (entryPath path dir) dir pattern recursive showTotalSize
             forceList forceWide c screenHeight of
        Inl f \<Rightarrow> Inl f
      | Inr (out, c1) \<Rightarrow>
          (case listSubdirectories e path dirs pattern recursive showTotalSize forceList
                  forceWide c1 screenHeight of
             Inl f \<Rightarrow> Inl f
           | Inr (out', c2) \<Rightarrow>
               Inr (endl @ entryPath path dir @ '':'' @ endl @ out @ out', c2)))"
  by pat_completeness auto

subsection \<open>showError, parseTargets and main (c.cpp)\<close>

text \<open>How the process ends: \<open>exit\<close> or \<open>return\<close> with what it has printed, or an abort.\<close>

datatype outcome = Exit nat string | Abort failure

definition showError :: "string \<Rightarrow> outcome" where
  "showError errorMessage =
     Exit 1 ([CHR 0x1B] @ ''[31m'' @ ''Error: '' @ reset @ errorMessage @ ''. Try: c -h'' @ endl)"

definition directoryExists :: "env \<Rightarrow> string \<Rightarrow> bool" where
  "directoryExists e path = (case lookup e path of None \<Rightarrow> False | Some d \<Rightarrow> is_directory d)"

definition knownFlags :: "string list" where
  "knownFlags = [''-r'', ''--recursive'', ''-t'', ''--total'', ''-l'', ''--list'',
                 ''-w'', ''--wide'', ''-p'', ''--pause'', ''-h'', ''--help'']"

text \<open>
  The loop over \<open>argv[1]\<close> to \<open>argv[argc - 1]\<close>; \<open>Inl\<close> carries the message of the
  first \<open>showError\<close>.
\<close>

fun parseLoop :: "string list \<Rightarrow> string \<times> string \<times> string list \<Rightarrow>
    string + string \<times> string \<times> string list" where
  "parseLoop [] st = Inr st"
| "parseLoop (arg # rest) (dir, pattern, flags) =
     (if take 1 arg = ''-'' then
        (if arg \<in> set knownFlags then parseLoop rest (dir, pattern, flags @ [arg])
         else Inl (''Unknown flag: '' @ arg))
      else if CHR ''*'' \<in> set arg \<or> CHR ''?'' \<in> set arg then
        (if pattern = ''*'' then parseLoop rest (dir, arg, flags)
         else Inl ''Multiple patterns are not allowed.'')
      else
        (if dir = ''.'' then parseLoop rest (arg, pattern, flags)
         else Inl ''Multiple directories are not allowed.''))"

definition parseTargets :: "env \<Rightarrow> string list \<Rightarrow> string + string \<times> string \<times> string list" where
  "parseTargets e args =
     (if args = [] then Inr (''.'', ''*'', [])
      else
        (case parseLoop args (''.'', ''*'', []) of
           Inl msg \<Rightarrow> Inl msg
         | Inr (dir, pattern, flags) \<Rightarrow>
             if \<not> directoryExists e dir then Inl (''Directory does not exist: '' @ dir)
             else Inr (dir, pattern, flags)))"

record features =
  recursive' :: bool
  showTotalSize' :: bool
  forceList' :: bool
  forceWide' :: bool
  screenPause' :: bool

text \<open>The loop over the flags in \<open>main\<close>; \<open>None\<close> when a help flag ends the program.\<close>

fun flagLoop :: "string list \<Rightarrow> features \<Rightarrow> features option" where
  "flagLoop [] f = Some f"
| "flagLoop (flag # rest) f =
     (if flag = ''-r'' \<or> flag = ''--recursive'' then flagLoop rest (f\<lparr>recursive' := True\<rparr>)
      else if flag = ''-t'' \<or> flag = ''--total'' then flagLoop rest (f\<lparr>showTotalSize' := True\<rparr>)
      else if flag = ''-l'' \<or> flag = ''--list'' then flagLoop rest (f\<lparr>forceList' := True\<rparr>)
      else if flag = ''-w'' \<or> flag = ''--wide'' then flagLoop rest (f\<lparr>forceWide' := True\<rparr>)
      else if flag = ''-p'' \<or> flag = ''--pause'' then flagLoop rest (f\<lparr>screenPause' := True\<rparr>)
      else if flag = ''-h'' \<or> flag = ''--help'' then None
      else flagLoop rest f)"

text \<open>The features that \<open>main\<close> reads again after the loop.\<close>

definition core :: "features \<Rightarrow> bool \<times> bool \<times> bool \<times> bool" where
  "core f = (recursive' f, showTotalSize' f, forceList' f, forceWide' f)"

text \<open>
  \<open>main\<close>, given \<open>argv[1]\<close> onwards. \<open>fs::directory_iterator\<close> throws when the target
  is not a directory that can be read; nothing catches it.
\<close>

definition main :: "env \<Rightarrow> string list \<Rightarrow> outcome" where
  "main e args =
     (let screenHeight = (if 0 < ws_row e then uint (ws_row e) else 24) in
      case parseTargets e args of
        Inl msg \<Rightarrow> showError msg
      | Inr (dir, pattern, flags) \<Rightarrow>
          (case flagLoop flags
                  \<lparr>recursive' = False, showTotalSize' = False, forceList' = False,
                   forceWide' = False, screenPause' = False\<rparr> of
             None \<Rightarrow> Exit 0 showAboutScreen
           | Some f \<Rightarrow>
               (case lookup e dir of
                  None \<Rightarrow> Abort FilesystemError
                | Some d \<Rightarrow>
                    if \<not> is_directory d then Abort FilesystemError
                    else
                      (case listDirectoryContents e dir d pattern (recursive' f)
                              (showTotalSize' f) (forceList' f) (forceWide' f)
                              \<lparr>totalFiles = 0, totalDirs = 0, totalSizeShown = 0\<rparr>
                              screenHeight of
                         Inl fl \<Rightarrow> Abort fl
                       | Inr (out, c) \<Rightarrow> Exit 0 (out @ displaySummary c)))))"

subsection \<open>A sample directory\<close>

text \<open>
  A directory with a subdirectory and two files, on a terminal of 24 rows and 80 columns,
  for running the program on concrete input. Its \<open>fnmatch\<close> is \<open>glob\<close>: what
  \<open>fnmatch\<close> does with a pattern of ordinary characters, \<open>*\<close> and \<open>?\<close> on a name
  without a slash. Bracket expressions and escapes do not occur in the sample runs.
\<close>

fun glob :: "string \<Rightarrow> string \<Rightarrow> bool" where
  "glob [] s = (s = [])"
| "glob (p # ps) [] = (p = CHR ''*'' \<and> glob ps [])"
| "glob (p # ps) (c # cs) =
     (if p = CHR ''*'' then glob ps (c # cs) \<or> glob (p # ps) cs
      else (p = CHR ''?'' \<or> p = c) \<and> glob ps cs)"

definition subDir :: node where
  "subDir = Node ''sub'' (Some 0x41ED) 4096 ''2025-05-01 09:00:00'' False
     [Node ''notes.md'' (Some 0x81A4) 10 ''2025-05-01 09:30:00'' False []]"

definition rootDir :: node where
  "rootDir = Node ''.'' (Some 0x41ED) 4096 ''2025-05-01 09:00:00'' False
     [Node ''b.txt'' (Some 0x81A4) 2048 ''2025-05-02 11:00:00'' False [],
      subDir,
      Node ''a.cpp'' (Some 0x81A4) 1000 ''2025-05-01 10:00:00'' False []]"

definition testEnv :: env where
  "testEnv = \<lparr>ws_row = 24, ws_col = 80, fnmatch = glob,
     lookup = (\<lambda>path. if path = ''.'' then Some rootDir
                       else if path = ''sub'' then Some subDir else None)\<rparr>"

subsection \<open>The order of the specification\<close>







subsection \<open>Sample directories for the order\<close>

text \<open>
  A regular file (mode 0644), a regular file that its owner may execute (mode 0755) and a
  directory (mode 0755).
\<close>

definition sampleFile :: "string \<Rightarrow> 64 word \<Rightarrow> node" where
  "sampleFile nm sz = Node nm (Some 0x81A4) sz ''2025-05-01 10:00:00'' False []"

definition sampleProgram :: "string \<Rightarrow> 64 word \<Rightarrow> node" where
  "sampleProgram nm sz = Node nm (Some 0x81ED) sz ''2025-05-01 10:00:00'' False []"

definition sampleDirectory :: "string \<Rightarrow> node list \<Rightarrow> node" where
  "sampleDirectory nm entries = Node nm (Some 0x41ED) 4096 ''2025-05-01 09:00:00'' False entries"






subsection \<open>The files of a recursive listing\<close>

text \<open>
  The entries on which a recursive listing runs the \<open>else\<close> branch of the scan loop
  (\<open>files.push_back(entry); totalSizeShown += entry.file_size()\<close>): in the directory
  listed, the matching entries that are not directories, and the same in every matching
  directory, which \<open>listDirectoryContents\<close> lists in turn. Every place in the tree
  stands in the list once at most.
\<close>

fun filesScanned :: "(string \<Rightarrow> string \<Rightarrow> bool) \<Rightarrow> string \<Rightarrow> node \<Rightarrow> node list" where
  "filesScanned fnm pattern (Node nm md sz mt lnk entries) =
     concat (map (\<lambda>entry.
         if pattern \<noteq> [] \<and> \<not> fnm pattern (name entry) then []
         else if is_directory entry then filesScanned fnm pattern entry
         else [entry]) entries)"

text \<open>No directory below the node is a symbolic link.\<close>

fun noDirectoryLinks :: "node \<Rightarrow> bool" where
  "noDirectoryLinks (Node nm md sz mt lnk entries) =
     list_all (\<lambda>entry. is_directory entry \<longrightarrow> \<not> is_symlink entry \<and> noDirectoryLinks entry)
       entries"

text \<open>
  A directory with a file, the directory \<open>sub\<close> and a symbolic link to a directory with
  one file.
\<close>

definition linkedDir :: node where
  "linkedDir = Node ''top'' (Some 0x41ED) 4096 ''2025-05-01 09:00:00'' False
     [Node ''data.txt'' (Some 0x81A4) 100 ''2025-05-01 10:00:00'' False [],
      subDir,
      Node ''link'' (Some 0x41ED) 4096 ''2025-05-01 09:00:00'' True
        [Node ''memo.txt'' (Some 0x81A4) 7 ''2025-05-01 09:30:00'' False []]]"

section \<open>The lister terminates\<close>

text \<open>
  The recursion of \<open>listDirectoryContents\<close> descends into directories it has found in
  the directory it lists: sorting keeps the entries, and the scan only takes entries of the
  directory, so the tree below gets smaller.
\<close>

lemma size_insert_sorted:
  "size_list f (insert_sorted lt x ys) = Suc (f x + size_list f ys)"
  by (induction ys) auto

lemma size_insertions:
  "size_list f (foldl (\<lambda>sorted x. insert_sorted lt x sorted) ys xs)
     = size_list f ys + size_list f xs"
  by (induction xs arbitrary: ys) (simp_all add: size_insert_sorted)

lemma size_std_sort: "size_list f (std_sort lt xs) = size_list f xs"
  by (simp add: std_sort_def size_insertions)

lemma scanLoop_size:
  "scanLoop fnm pattern recursive showTotalSize cs (ds, fs, c) = Inr (ds', fs', c') \<Longrightarrow>
     size_list f ds' \<le> size_list f ds + size_list f cs"
proof (induction cs arbitrary: ds fs c)
  case Nil
  then show ?case by simp
next
  case (Cons entry rest)
  show ?case
  proof (cases "pattern \<noteq> [] \<and> \<not> fnm pattern (name entry)")
    case True
    with Cons.prems have "scanLoop fnm pattern recursive showTotalSize rest (ds, fs, c) = Inr (ds', fs', c')"
      by simp
    from Cons.IH [OF this] show ?thesis by simp
  next
    case False
    show ?thesis
    proof (cases "is_directory entry")
      case True
      with False Cons.prems obtain c0 where
        "scanLoop fnm pattern recursive showTotalSize rest (ds @ [entry], fs, c0) = Inr (ds', fs', c')"
        by auto
      from Cons.IH [OF this] show ?thesis by simp
    next
      case nd: False
      with False Cons.prems obtain c0 where
        "scanLoop fnm pattern recursive showTotalSize rest (ds, fs @ [entry], c0) = Inr (ds', fs', c')"
        by (auto split: sum.splits)
      from Cons.IH [OF this] show ?thesis by simp
    qed
  qed
qed

termination listDirectoryContents
proof (relation "measure (case_sum
    (\<lambda>(e, path, dirNode, rest). 2 * size dirNode)
    (\<lambda>(e, path, dirs, rest). 2 * size_list size dirs + 1))", goal_cases)
  case 1
  show ?case by simp
next
  case (2 e path dirNode pattern recursive showTotalSize forceList forceWide c screenHeight
      x2 directories0 y files0 c1 directories files allEntries out)
  from 2(1) have "scanLoop (fnmatch e) pattern recursive showTotalSize (children dirNode) ([], [], c)
      = Inr (directories0, files0, c1)"
    using 2(2,3) by simp
  from scanLoop_size [OF this, of size]
  have "size_list size directories0 \<le> size_list size (children dirNode)" by simp
  moreover have "size_list size (children dirNode) < size dirNode" by (cases dirNode) simp
  ultimately show ?case using 2 by (simp add: size_std_sort)
next
  case 3
  then show ?case by simp
next
  case 4
  then show ?case by simp
qed

section \<open>Classification\<close>

text \<open>
  C10. The extension \<open>.sh\<close> is in the programming set and in the text set; the programming
  set is looked up first, so every regular file whose lower-cased extension is \<open>.sh\<close> is
  classified Programming, never Text.
\<close>

theorem sh_is_Programming:
  "''.sh'' \<in> set programmingExtensions \<and> ''.sh'' \<in> set textExtensions \<and>
   (\<forall>entry. is_regular_file entry \<and> toLower (extension (name entry)) = ''.sh''
      \<longrightarrow> categorizeFile entry = Programming \<and> categorizeFile entry \<noteq> Text)"
  by (simp add: categorizeFile_def programmingExtensions_def textExtensions_def)

theorem sh_is_Programming_witness:
  "is_regular_file (Node ''Run.SH'' (Some 0x81A4) 120 ''2025-05-01 10:00:00'' False []) \<and>
   toLower (extension (name (Node ''Run.SH'' (Some 0x81A4) 120 ''2025-05-01 10:00:00'' False [])))
     = ''.sh'' \<and>
   categorizeFile (Node ''Run.SH'' (Some 0x81A4) 120 ''2025-05-01 10:00:00'' False []) = Programming"
proof -
  let ?e = "Node ''Run.SH'' (Some 0x81A4) 120 ''2025-05-01 10:00:00'' False []"
  have r: "is_regular_file ?e"
    by (simp add: is_regular_file_def S_IFMT_def S_IFREG_def)
  have x: "toLower (extension (name ?e)) = ''.sh''"
    by code_simp
  from sh_is_Programming have "categorizeFile ?e = Programming"
    using r x by blast
  with r x show ?thesis by simp
qed


section \<open>Size formatting\<close>

subsection \<open>The conversion to double and the reduction loop\<close>

lemma bit_width_bounds: "0 < n \<Longrightarrow> 2 ^ (bit_width n - 1) \<le> n \<and> n < 2 ^ bit_width n"
proof (induction n rule: bit_width.induct)
  case (1 n)
  show ?case
  proof (cases "n div 2 = 0")
    case True
    with "1.prems" have "n = 1" by (simp add: div_eq_0_iff) 
    then show ?thesis by (simp add: bit_width.simps [of "Suc 0"] bit_width.simps [of 0])
  next
    case False
    with "1.IH" "1.prems" have ih: "2 ^ (bit_width (n div 2) - 1) \<le> n div 2" "n div 2 < 2 ^ bit_width (n div 2)"
      by auto
    have bw: "bit_width n = Suc (bit_width (n div 2))" using "1.prems" by (subst bit_width.simps) simp
    have pos: "0 < bit_width (n div 2)" using False by (subst bit_width.simps) simp
    then obtain k where k: "bit_width (n div 2) = Suc k" by (cases "bit_width (n div 2)") auto
    from ih k have "2 * 2 ^ k \<le> 2 * (n div 2)" by simp
    then have "2 ^ (Suc k) \<le> n" by simp
    moreover from ih have "n < 2 * 2 ^ bit_width (n div 2)" by linarith
    ultimately show ?thesis using bw k by simp
  qed
qed

lemma reduceLoop_post:
  "reduceLoop r i = (r', i') \<Longrightarrow>
     i \<le> i' \<and> r' < 1024 \<and> r = r' * 1024 ^ nat (i' - i) \<and> (1024 \<le> r \<longrightarrow> i < i' \<and> 1 \<le> r')"
proof (induction r i rule: reduceLoop.induct)
  case (1 r i)
  show ?case
  proof (cases "1024 \<le> r")
    case True
    with "1.prems" have eq: "reduceLoop (r / 1024) (i + 1) = (r', i')"
      by (subst (asm) reduceLoop.simps) simp
    from "1.IH" [OF True eq] have ih: "i + 1 \<le> i'" "r' < 1024" "r / 1024 = r' * 1024 ^ nat (i' - (i + 1))"
      "1024 \<le> r / 1024 \<longrightarrow> 1 \<le> r'" by auto
    have "nat (i' - i) = Suc (nat (i' - (i + 1)))" using ih(1) by simp
    then have "r = r' * 1024 ^ nat (i' - i)" using ih(3) by simp
    moreover have "1 \<le> r'"
    proof (cases "1024 \<le> r / 1024")
      case True then show ?thesis using ih(4) by simp
    next
      case False
      then have "reduceLoop (r / 1024) (i + 1) = (r / 1024, i + 1)" by (subst reduceLoop.simps) simp
      with eq have "r' = r / 1024" by simp
      then show ?thesis using True by simp
    qed
    ultimately show ?thesis using ih True by simp
  next
    case False
    with "1.prems" have "r' = r" "i' = i" by (subst (asm) reduceLoop.simps, simp)+
    then show ?thesis using False by simp
  qed
qed

lemma bit_width_double: "0 < n \<Longrightarrow> bit_width (2 * n) = Suc (bit_width n)"
  by (subst bit_width.simps) simp

lemma bit_width_pow2: "0 < n \<Longrightarrow> bit_width (2 ^ k * n) = bit_width n + k"
proof (induction k)
  case 0
  then show ?case by simp
next
  case (Suc k)
  have "bit_width (2 ^ Suc k * n) = bit_width (2 * (2 ^ k * n))" by (simp add: mult.assoc)
  also have "\<dots> = Suc (bit_width (2 ^ k * n))" using Suc.prems by (intro bit_width_double) simp
  finally show ?case using Suc by simp
qed

lemma bit_width_1024:
  assumes "0 < n" shows "bit_width (1024 * n) = bit_width n + 10"
  using bit_width_pow2 [OF assms, of 10] by simp

lemma bit_width_ge: "2 ^ k \<le> n \<Longrightarrow> k < bit_width n"
proof -
  assume a: "2 ^ k \<le> n"
  then have "0 < n" by (metis gr0I not_less_eq_eq power_not_zero zero_neq_numeral le_zero_eq)
  then have "n < 2 ^ bit_width n" using bit_width_bounds by blast
  with a have "(2::nat) ^ k < 2 ^ bit_width n" by linarith
  then show ?thesis by simp
qed

lemma bit_width_le: "0 < n \<Longrightarrow> n < 2 ^ k \<Longrightarrow> bit_width n \<le> k"
proof -
  assume p: "0 < n" and a: "n < 2 ^ k"
  then have "2 ^ (bit_width n - 1) \<le> n" using bit_width_bounds by blast
  with a have "(2::nat) ^ (bit_width n - 1) < 2 ^ k" by linarith
  then have "bit_width n - 1 < k" by simp
  then show ?thesis by simp
qed

lemma round53_bounds:
  assumes lo: "1024 \<le> n" and hi: "n < 2 ^ 64"
  shows "1024 \<le> round53 n \<and> round53 n \<le> 2 ^ 64"
proof (cases "n < 2 ^ 53")
  case True
  then show ?thesis using lo hi by (simp add: round53_def)
next
  case False
  define e where "e = bit_width n - 53"
  define q where "q = n div 2 ^ e"
  have n53: "2 ^ 53 \<le> n" using False by simp
  have pos: "0 < n" using lo by simp
  have bw_lo: "53 < bit_width n" using n53 by (rule bit_width_ge)
  have bw_hi: "bit_width n \<le> 64" using pos hi by (rule bit_width_le)
  have bw: "bit_width n = 53 + e" using bw_lo by (simp add: e_def)
  have e1: "1 \<le> e" using bw_lo by (simp add: e_def)
  from bit_width_bounds [OF pos] have b: "2 ^ (bit_width n - 1) \<le> n" "n < 2 ^ bit_width n" by auto
  have "n < 2 ^ 53 * 2 ^ e" using b(2) bw by (simp add: power_add)
  then have q_hi: "q < 2 ^ 53" unfolding q_def by (simp add: less_mult_imp_div_less)
  have "bit_width n - 1 = 52 + e" using bw by simp
  then have "(2::nat) ^ (bit_width n - 1) = 2 ^ 52 * 2 ^ e" by (simp only: power_add)
  then have "2 ^ 52 * 2 ^ e \<le> n" using b(1) by simp
  then have q_lo: "2 ^ 52 \<le> q" unfolding q_def
    by (metis div_le_mono div_mult_self_is_m zero_less_numeral zero_less_power)
  have two_e: "(2::nat) \<le> 2 ^ e" using e1 by (metis power_increasing one_le_numeral power_one_right)
  have lower: "1024 \<le> q * 2 ^ e"
  proof -
    have "1024 \<le> (2::nat) ^ 52 * 2" by simp
    also have "\<dots> \<le> q * 2 ^ e" using q_lo two_e by (rule mult_le_mono)
    finally show ?thesis .
  qed
  have upper: "(q + 1) * 2 ^ e \<le> 2 ^ 64"
  proof -
    have "(q + 1) * 2 ^ e \<le> 2 ^ 53 * 2 ^ e" using q_hi by simp
    also have "\<dots> = 2 ^ bit_width n" using bw by (simp add: power_add)
    also have "\<dots> \<le> 2 ^ 64" using bw_hi by (intro power_increasing) simp_all
    finally show ?thesis .
  qed
  have le: "q * 2 ^ e \<le> (q + 1) * 2 ^ e" by simp
  have "round53 n = q * 2 ^ e \<or> round53 n = (q + 1) * 2 ^ e"
    using False by (simp add: round53_def Let_def e_def q_def)
  then show ?thesis using lower upper le by auto
qed

lemma round53_scale: "round53 (1024 * n) = 1024 * round53 n"
proof (cases "1024 * n < 2 ^ 53")
  case True
  then have "n < 2 ^ 53" by simp
  with True show ?thesis by (simp add: round53_def)
next
  case big: False
  then have pos: "0 < n" by (cases n) auto
  have bw': "bit_width (1024 * n) = bit_width n + 10" using pos by (rule bit_width_1024)
  have bw_lo': "53 < bit_width (1024 * n)" using big by (intro bit_width_ge) simp
  show ?thesis
  proof (cases "n < 2 ^ 53")
    case True
    define e where "e = bit_width (1024 * n) - 53"
    have "bit_width n \<le> 53" using pos True by (rule bit_width_le)
    then have e10: "e \<le> 10" and e1: "1 \<le> e" using bw' bw_lo' by (simp_all add: e_def)
    have "(2::nat) ^ e dvd 2 ^ 10" using e10 by (rule le_imp_power_dvd)
    then have dvd: "2 ^ e dvd 1024 * n" by simp
    then have r0: "(1024 * n) mod 2 ^ e = 0" by simp
    have h: "0 < (2::nat) ^ (e - 1)" by simp
    have "round53 (1024 * n) = ((1024 * n) div 2 ^ e) * 2 ^ e"
      using big r0 h unfolding round53_def Let_def e_def [symmetric] by simp
    also have "\<dots> = 1024 * n" using dvd by simp
    finally show ?thesis using True by (simp add: round53_def)
  next
    case False
    define e where "e = bit_width n - 53"
    have bw_lo: "53 < bit_width n" using False by (intro bit_width_ge) simp
    then have e1: "1 \<le> e" by (simp add: e_def)
    have e': "bit_width (1024 * n) - 53 = e + 10" using bw' bw_lo by (simp add: e_def)
    have p: "(2::nat) ^ (e + 10) = 1024 * 2 ^ e" by (simp add: power_add)
    have h: "(2::nat) ^ (e + 10 - 1) = 1024 * 2 ^ (e - 1)"
    proof -
      have "e + 10 - 1 = (e - 1) + 10" using e1 by simp
      then have "(2::nat) ^ (e + 10 - 1) = 2 ^ (e - 1) * 2 ^ 10" by (simp only: power_add)
      then show ?thesis by simp
    qed
    have q: "(1024 * n) div (1024 * 2 ^ e) = n div 2 ^ e" by simp
    have r: "(1024 * n) mod (1024 * 2 ^ e) = 1024 * (n mod 2 ^ e)" by (rule mod_mult_mult1)
    show ?thesis
      using big False unfolding round53_def Let_def e' e_def [symmetric] p h q r
      by simp
  qed
qed


lemma to_double_bounds:
  assumes "1024 \<le> sz"
  shows "1024 \<le> to_double sz \<and> to_double sz \<le> 2 ^ 64"
proof -
  have lo: "1024 \<le> unat sz" using assms by (simp add: word_le_nat_alt)
  have hi: "unat sz < 2 ^ 64" proof -
    have "unat sz < 2 ^ LENGTH(64)" by (rule unsigned_less)
    then show ?thesis by simp
  qed
  from round53_bounds [OF lo hi]
  have "real 1024 \<le> real (round53 (unat sz))" "real (round53 (unat sz)) \<le> real (2 ^ 64)"
    by (simp_all only: of_nat_le_iff)
  then show ?thesis by (simp add: to_double_def)
qed

lemma to_double_scale:
  assumes "unat sz * 1024 < 2 ^ 64"
  shows "to_double (sz * 1024) = 1024 * to_double sz"
proof -
  have "unat sz * unat (1024 :: 64 word) < 2 ^ LENGTH(64)" using assms by simp
  then have "unat (sz * 1024) = unat sz * unat (1024 :: 64 word)" by (simp only: unat_mult_lem)
  then have "unat (sz * 1024) = 1024 * unat sz" by simp
  then show ?thesis by (simp add: to_double_def round53_scale)
qed

lemma reduceLoop_shift:
  "reduceLoop r (i + 1) = (fst (reduceLoop r i), snd (reduceLoop r i) + 1)"
proof (induction r i rule: reduceLoop.induct)
  case (1 r i)
  show ?case
  proof (cases "1024 \<le> r")
    case True
    then show ?thesis
      using "1.IH" by (subst reduceLoop.simps, subst (2 3) reduceLoop.simps) simp
  next
    case False
    then show ?thesis by (subst reduceLoop.simps, subst (2 3) reduceLoop.simps) simp
  qed
qed

lemma reduceLoop_1024: "1 \<le> r \<Longrightarrow> reduceLoop (1024 * r) i = reduceLoop r (i + 1)"
  by (subst reduceLoop.simps) simp

lemma loop_result:
  assumes "1024 \<le> sz"
  shows "0 \<le> unitIndexOf sz \<and> unitIndexOf sz \<le> 5 \<and>
         1 \<le> reducedSizeOf sz \<and> reducedSizeOf sz < 1024"
proof -
  obtain r' i' where res: "reduceLoop (to_double sz) (- 1) = (r', i')" by fastforce
  from to_double_bounds [OF assms] have lo: "1024 \<le> to_double sz" and hi: "to_double sz \<le> 2 ^ 64"
    by auto
  from reduceLoop_post [OF res] lo
  have post: "- 1 < i'" "r' < 1024" "to_double sz = r' * 1024 ^ nat (i' + 1)" "1 \<le> r'" by auto
  have "(1024::real) ^ nat (i' + 1) \<le> r' * 1024 ^ nat (i' + 1)" using post(4) by simp
  also have "\<dots> \<le> 2 ^ 64" using post(3) hi by simp
  also have "\<dots> < (1024::real) ^ 7" by simp
  finally have "(1024::real) ^ nat (i' + 1) < 1024 ^ 7" .
  then have "nat (i' + 1) < 7" by (rule power_less_imp_less_exp [rotated]) simp
  then have "i' \<le> 5" by simp
  then show ?thesis using post res by (simp add: unitIndexOf_def reducedSizeOf_def)
qed

lemma to_string_nonempty: "to_string n \<noteq> []"
  by (subst to_string.simps) simp

lemma length_to_string_double: "8 \<le> length (to_string_double x)"
proof -
  define n where "n = nat (round_half_even (x * 1000000))"
  have a: "1 \<le> length (to_string (n div 1000000))"
    using to_string_nonempty [of "n div 1000000"] by (cases "to_string (n div 1000000)") auto
  have b: "6 \<le> length (pad6 (n mod 1000000))" by (simp add: pad6_def)
  have "length (to_string_double x) =
      length (to_string (n div 1000000)) + 1 + length (pad6 (n mod 1000000))"
    by (simp add: to_string_double_def Let_def n_def)
  then show ?thesis using a b by linarith
qed

lemma formatSize_large:
  assumes "1024 \<le> sz"
  shows "formatSize sz =
     take 5 (to_string_double (reducedSizeOf sz)) @ '' '' @ unitLabel (unitIndexOf sz)"
  using assms by (simp add: formatSize_def reducedSizeOf_def unitIndexOf_def case_prod_beta not_less [symmetric])

subsection \<open>Evaluation on numerals\<close>

lemmas to_string_numeral =
  to_string.simps [of "numeral k" for k] to_string.simps [of 0] to_string.simps [of 1]
  to_string.simps [of "Suc 0"]

lemmas bit_width_numeral =
  bit_width.simps [of "numeral k" for k] bit_width.simps [of 0] bit_width.simps [of 1]
  bit_width.simps [of "Suc 0"]

lemmas reduceLoop_numeral =
  reduceLoop.simps [of "numeral k" for k] reduceLoop.simps [of "numeral k / numeral l" for k l]
  reduceLoop.simps [of 0] reduceLoop.simps [of 1]

lemma digit_chars:
  "char_of (48::nat) = CHR ''0''" "char_of (49::nat) = CHR ''1''"
  "char_of (50::nat) = CHR ''2''" "char_of (51::nat) = CHR ''3''"
  "char_of (52::nat) = CHR ''4''" "char_of (53::nat) = CHR ''5''"
  "char_of (54::nat) = CHR ''6''" "char_of (55::nat) = CHR ''7''"
  "char_of (56::nat) = CHR ''8''" "char_of (57::nat) = CHR ''9''"
  by code_simp+

lemma replicate_numeral: "replicate (numeral k) x = x # replicate (pred_numeral k) x"
  by (simp add: numeral_eq_Suc)

lemmas fs_eval =
  formatSize_def to_double_def round53_def bit_width_numeral reduceLoop_numeral
  to_string_double_def round_half_even_def pad6_def to_string_numeral digit_chars
  unitLabel_def baseUnits_def replicate_numeral

lemma formatSize_2048: "formatSize 2048 = ''2.000 KB''"
  by (simp add: fs_eval)

lemma formatSize_1025: "formatSize 1025 = ''1.000 KB''"
  by (simp add: fs_eval)

text \<open>
  The six-decimal rendering is itself rounded: ten gibibytes less one byte are
  9.99999999907 GB, printed by \<open>std::to_string\<close> as 10.000000.
\<close>

lemma formatSize_below_10GB: "formatSize (10 * 2 ^ 30 - 1) = ''10.00 GB''"
  by (simp add: fs_eval)

lemma unitLabel_base:
  assumes "0 \<le> i" and "i \<le> 5"
  shows "unitLabel i = [''KB'', ''MB'', ''GB'', ''TB'', ''PB'', ''EB''] ! nat i"
proof -
  from assms have "nat i \<in> {0, 1, 2, 3, 4, 5}" by auto
  then show ?thesis using assms by (auto simp: unitLabel_def baseUnits_def)
qed

subsection \<open>Unit labels\<close>

text \<open>
  C3, as stated, fails. The claim puts YB at division count 7 and lets the labels of
  \<open>b\<close>, \<open>b * 1024\<close>, \<open>b * 1024\<^sup>2\<close>, ... run up to YB. The unit choice of the source
  takes the table only below index 7, so index 7 gives the synthetic label \<open>[B\<close>; and a
  64-bit count cannot reach it: the seventh product of the sequence from 1024 wraps to 0.
\<close>

theorem unit_sequence_counterexample:
  "unitLabel 7 = ''[B'' \<and> baseUnits ! 7 = ''YB'' \<and> formatSize (1024 * 1024 ^ 6) = ''0 B''"
proof -
  have "char_of (91::int) = CHR ''[''" by code_simp
  then have "unitLabel 7 = ''[B''" by (simp add: unitLabel_def)
  moreover have "baseUnits ! 7 = ''YB''" by (simp add: baseUnits_def)
  moreover have "formatSize (1024 * 1024 ^ 6) = ''0 B''" by (simp add: fs_eval)
  ultimately show ?thesis by simp
qed

text \<open>
  C3, amended. For every 64-bit byte count of at least 1024 the division count is between
  0 and 5 and the label is the entry of KB, MB, GB, TB, PB, EB at that index; when the
  count times 1024 still fits 64 bits, the division count of the product is one more, so
  the labels along \<open>b\<close>, \<open>b * 1024\<close>, ... rise one step at a time (from B to KB for a
  positive count below 1024).
\<close>

theorem formatSize_unit_labels:
  "(sz < 1024 \<longrightarrow>
      formatSize sz = to_string (unat sz) @ '' B'' \<and>
      (0 < sz \<longrightarrow> unitIndexOf (sz * 1024) = 0)) \<and>
   (1024 \<le> sz \<longrightarrow>
      0 \<le> unitIndexOf sz \<and> unitIndexOf sz \<le> 5 \<and>
      drop 6 (formatSize sz) =
        [''KB'', ''MB'', ''GB'', ''TB'', ''PB'', ''EB''] ! nat (unitIndexOf sz) \<and>
      (unat sz * 1024 < 2 ^ 64 \<longrightarrow> unitIndexOf (sz * 1024) = unitIndexOf sz + 1))"
proof (intro conjI impI)
  assume small: "sz < 1024"
  then show "formatSize sz = to_string (unat sz) @ '' B''" by (simp add: formatSize_def)
  assume pos: "0 < sz"
  have n: "unat sz < 1024" using small by (simp add: word_less_nat_alt)
  have p: "1 \<le> unat sz" using pos by (simp add: word_less_nat_alt)
  have fits: "unat sz * 1024 < 2 ^ 64" using n by simp
  have d: "to_double sz = real (unat sz)" using n by (simp add: to_double_def round53_def)
  have "real 1 \<le> real (unat sz)" using p by (rule of_nat_mono)
  then have one: "1 \<le> to_double sz" by (simp only: d of_nat_1)
  have "reduceLoop (to_double (sz * 1024)) (- 1) = reduceLoop (to_double sz) 0"
    using to_double_scale [OF fits] reduceLoop_1024 [OF one, of "- 1"] by simp
  also have "\<dots> = (to_double sz, 0)"
  proof -
    have "real (unat sz) < real 1024" using n by (simp only: of_nat_less_iff)
    then have "to_double sz < 1024" by (simp add: d)
    then show ?thesis by (subst reduceLoop.simps) simp
  qed
  finally show "unitIndexOf (sz * 1024) = 0" by (simp add: unitIndexOf_def)
next
  assume big: "1024 \<le> sz"
  from loop_result [OF big]
  show "0 \<le> unitIndexOf sz" and "unitIndexOf sz \<le> 5" by auto
  have len: "length (take 5 (to_string_double (reducedSizeOf sz))) = 5"
    using length_to_string_double [of "reducedSizeOf sz"] by simp
  have "drop 6 (formatSize sz) = unitLabel (unitIndexOf sz)"
    using len by (simp add: formatSize_large [OF big])
  then show "drop 6 (formatSize sz) =
      [''KB'', ''MB'', ''GB'', ''TB'', ''PB'', ''EB''] ! nat (unitIndexOf sz)"
    using loop_result [OF big] by (simp add: unitLabel_base)
  assume fits: "unat sz * 1024 < 2 ^ 64"
  have one: "1 \<le> to_double sz" using to_double_bounds [OF big] by simp
  have "reduceLoop (to_double (sz * 1024)) (- 1) = reduceLoop (to_double sz) (- 1 + 1)"
    using to_double_scale [OF fits] reduceLoop_1024 [OF one, of "- 1"] by simp
  then show "unitIndexOf (sz * 1024) = unitIndexOf sz + 1"
    by (simp only: unitIndexOf_def reduceLoop_shift snd_conv)
qed

theorem formatSize_unit_labels_witness:
  "(1024 :: 64 word) \<le> 3072 \<and> unat (3072 :: 64 word) * 1024 < 2 ^ 64 \<and>
   unitIndexOf 3072 = 0 \<and> drop 6 (formatSize 3072) = ''KB'' \<and>
   unitIndexOf (3072 * 1024) = 1"
proof -
  have big: "(1024 :: 64 word) \<le> 3072" by simp
  have fits: "unat (3072 :: 64 word) * 1024 < 2 ^ 64" by simp
  have idx: "unitIndexOf 3072 = 0" by (simp add: unitIndexOf_def fs_eval)
  from formatSize_unit_labels [of 3072] big fits
  have "drop 6 (formatSize 3072) =
          [''KB'', ''MB'', ''GB'', ''TB'', ''PB'', ''EB''] ! nat (unitIndexOf 3072) \<and>
        unitIndexOf (3072 * 1024) = unitIndexOf 3072 + 1"
    by blast
  with big fits idx show ?thesis by simp
qed

subsection \<open>The numeric portion\<close>

text \<open>
  C8, as stated, fails: \<open>formatSize\<close> keeps five characters of the number, so 2048 bytes
  are printed as \<open>2.000 KB\<close>, not as \<open>2.00 KB\<close>.
\<close>

theorem formatSize_2048_counterexample: "formatSize 2048 \<noteq> ''2.00 KB''"
  by (simp add: formatSize_2048)

text \<open>
  C8, amended. For every 64-bit byte count of at least 1024 the reduced value lies in
  \<open>[1, 1024)\<close>, and the numeric portion of \<open>formatSize\<close> is the first five characters of
  its six-decimal rendering (four digits and the period), cut off and not rounded to that
  width, followed by a space and the unit; 2048 bytes give \<open>2.000 KB\<close> and 1025 bytes
  give \<open>1.000 KB\<close>.
\<close>

theorem formatSize_numeric_portion:
  "formatSize 2048 = ''2.000 KB'' \<and> formatSize 1025 = ''1.000 KB'' \<and>
   (\<forall>sz. 1024 \<le> sz \<longrightarrow>
      1 \<le> reducedSizeOf sz \<and> reducedSizeOf sz < 1024 \<and>
      length (take 5 (to_string_double (reducedSizeOf sz))) = 5 \<and>
      formatSize sz =
        take 5 (to_string_double (reducedSizeOf sz)) @ '' '' @ unitLabel (unitIndexOf sz))"
proof (intro conjI allI impI)
  show "formatSize 2048 = ''2.000 KB''" by (rule formatSize_2048)
  show "formatSize 1025 = ''1.000 KB''" by (rule formatSize_1025)
next
  fix sz :: "64 word"
  assume big: "1024 \<le> sz"
  from loop_result [OF big]
  show "1 \<le> reducedSizeOf sz" and "reducedSizeOf sz < 1024" by auto
  show "length (take 5 (to_string_double (reducedSizeOf sz))) = 5"
    using length_to_string_double [of "reducedSizeOf sz"] by simp
  show "formatSize sz =
      take 5 (to_string_double (reducedSizeOf sz)) @ '' '' @ unitLabel (unitIndexOf sz)"
    by (rule formatSize_large [OF big])
qed

theorem formatSize_numeric_portion_witness:
  "(1024 :: 64 word) \<le> 1048575 \<and> reducedSizeOf 1048575 = 1048575 / 1024 \<and>
   to_string_double (reducedSizeOf 1048575) = ''1023.999023'' \<and>
   unitLabel (unitIndexOf 1048575) = ''KB'' \<and> formatSize 1048575 = ''1023. KB''"
proof -
  have big: "(1024 :: 64 word) \<le> 1048575" by simp
  have r: "reducedSizeOf 1048575 = 1048575 / 1024" by (simp add: reducedSizeOf_def fs_eval)
  have i: "unitIndexOf 1048575 = 0" by (simp add: unitIndexOf_def fs_eval)
  have "to_string_double (1048575 / 1024) = ''1023.999023''" by (simp add: fs_eval)
  then have t: "to_string_double (reducedSizeOf 1048575) = ''1023.999023''" by (simp only: r)
  have "unitLabel 0 = ''KB''" by (simp add: unitLabel_def baseUnits_def)
  then have u: "unitLabel (unitIndexOf 1048575) = ''KB''" by (simp only: i)
  from formatSize_numeric_portion big
  have "formatSize 1048575 =
      take 5 (to_string_double (reducedSizeOf 1048575)) @ '' '' @ unitLabel (unitIndexOf 1048575)"
    by blast
  then have "formatSize 1048575 = ''1023. KB''" by (simp add: t u)
  with big r t u show ?thesis by (intro conjI)
qed

section \<open>The command line\<close>

subsection \<open>Running the program on the sample directory\<close>

lemma glob_star [simp]: "glob ''*'' nm"
  by (induction nm) simp_all

lemmas run_eval =
  main_def parseTargets_def knownFlags_def directoryExists_def testEnv_def rootDir_def subDir_def
  is_directory_def is_regular_file_def file_size_def last_write_time_def S_IFMT_def S_IFDIR_def S_IFREG_def
  S_IRUSR_def S_IWUSR_def S_IXUSR_def S_IRGRP_def S_IWGRP_def S_IXGRP_def S_IROTH_def S_IWOTH_def S_IXOTH_def
  std_sort_def directoryLess_def fileLess_def displayEntries_def useMultiColumn_def
  printEntry_def totalColumn_def isHidden_def getPermissions_def setw_left_def
  categorizeFile_def owner_exec_def programmingExtensions_def textExtensions_def videoExtensions_def
  pictureExtensions_def compressedExtensions_def
  displaySummary_def to_string_int_def entryPath_def
  displayMultiColumn_def gridRow_def cell_def

lemma sample_extensions:
  "toLower (extension ''notes.md'') = ''.md''"
  "toLower (extension ''a.cpp'') = ''.cpp''"
  "toLower (extension ''b.txt'') = ''.txt''"
  "toLower (extension ''sub'') = ''''"
  "toLower ''a.cpp'' = ''a.cpp''"
  "toLower ''b.txt'' = ''b.txt''"
  "toLower ''sub'' = ''sub''"
  by code_simp+

lemma is_directory_rootDir: "is_directory rootDir"
  by (simp add: rootDir_def is_directory_def S_IFMT_def S_IFDIR_def)

lemma is_directory_subDir: "is_directory subDir"
  by (simp add: subDir_def is_directory_def S_IFMT_def S_IFDIR_def)

lemma parseLoop_flags:
  "parseLoop args (d, p, fl) = Inr (d', p', fl') \<Longrightarrow>
     fl' = fl @ filter (\<lambda>a. take 1 a = ''-'') args"
proof (induction args arbitrary: d p fl)
  case Nil
  then show ?case by simp
next
  case (Cons arg rest)
  show ?case
  proof (cases "take 1 arg = ''-''")
    case True
    with Cons.prems have "parseLoop rest (d, p, fl @ [arg]) = Inr (d', p', fl')"
      by (simp split: if_splits)
    from Cons.IH [OF this] True show ?thesis by simp
  next
    case False
    with Cons.prems obtain d0 p0 where "parseLoop rest (d0, p0, fl) = Inr (d', p', fl')"
      by (auto split: if_splits)
    from Cons.IH [OF this] False show ?thesis by simp
  qed
qed

lemma flagLoop_help:
  "flagLoop fl f = None \<longleftrightarrow> ''-h'' \<in> set fl \<or> ''--help'' \<in> set fl"
  by (induction fl arbitrary: f) auto

lemma about_banner: "sublist ''About ColorDir'' showAboutScreen"
  by (simp add: showAboutScreen_def endl_def sublist_Cons_right)

subsection \<open>Help\<close>

text \<open>
  C1, as stated, fails: \<open>parseTargets\<close> checks every argument and the target directory
  before \<open>main\<close> looks at the flags, so an unknown flag or a missing directory ends the
  program with status 1 although a help flag was given.
\<close>

theorem help_counterexample:
  "main testEnv [''-h'', ''-z''] =
     Exit 1 ([CHR 0x1B] @ ''[31mError: '' @ [CHR 0x1B] @ ''[0mUnknown flag: -z. Try: c -h'' @ [CHR 0x0A]) \<and>
   main testEnv [''-h'', ''nowhere''] =
     Exit 1 ([CHR 0x1B] @ ''[31mError: '' @ [CHR 0x1B] @
             ''[0mDirectory does not exist: nowhere. Try: c -h'' @ [CHR 0x0A])"
  by (simp add: main_def parseTargets_def knownFlags_def showError_def reset_def endl_def
      directoryExists_def testEnv_def)

text \<open>
  C1, amended. When the arguments include \<open>-h\<close> or \<open>--help\<close> and pass
  \<open>parseTargets\<close> (no unknown flag, no rejected second directory or pattern, an
  existing target directory), the program prints the About banner, which contains
  \<open>About ColorDir\<close>, and nothing else, and exits with status 0.
\<close>

theorem help_after_validation:
  assumes ok: "parseTargets e args = Inr (dir, pattern, flags)"
    and hflag: "''-h'' \<in> set args \<or> ''--help'' \<in> set args"
  shows "main e args = Exit 0 showAboutScreen \<and> sublist ''About ColorDir'' showAboutScreen"
proof -
  from hflag have ne: "args \<noteq> []" by auto
  with ok have "parseLoop args (''.'', ''*'', []) = Inr (dir, pattern, flags)"
    by (auto simp: parseTargets_def split: sum.splits if_splits)
  from parseLoop_flags [OF this] have "flags = filter (\<lambda>a. take 1 a = ''-'') args" by simp
  with hflag have "''-h'' \<in> set flags \<or> ''--help'' \<in> set flags" by auto
  then have "flagLoop flags f = None" for f by (simp add: flagLoop_help)
  then have "main e args = Exit 0 showAboutScreen" using ok by (simp add: main_def)
  then show ?thesis using about_banner by simp
qed

theorem help_after_validation_witness:
  "parseTargets testEnv [''-r'', ''sub'', ''--help''] = Inr (''sub'', ''*'', [''-r'', ''--help'']) \<and>
   ''--help'' \<in> set [''-r'', ''sub'', ''--help''] \<and>
   main testEnv [''-r'', ''sub'', ''--help''] = Exit 0 showAboutScreen"
proof -
  have ok: "parseTargets testEnv [''-r'', ''sub'', ''--help'']
      = Inr (''sub'', ''*'', [''-r'', ''--help''])"
    by (simp add: parseTargets_def knownFlags_def directoryExists_def testEnv_def
        is_directory_subDir)
  have hflag: "''-h'' \<in> set [''-r'', ''sub'', ''--help''] \<or> ''--help'' \<in> set [''-r'', ''sub'', ''--help'']"
    by simp
  from help_after_validation [OF ok hflag] ok show ?thesis by simp
qed

subsection \<open>Usage errors\<close>

lemma unknown_flag_z:
  "main e [''-z''] =
     Exit 1 ([CHR 0x1B] @ ''[31mError: '' @ [CHR 0x1B] @ ''[0mUnknown flag: -z. Try: c -h'' @ [CHR 0x0A])"
  by (simp add: main_def parseTargets_def knownFlags_def showError_def reset_def endl_def)

text \<open>
  C9. Every unknown flag, second directory or second pattern and a missing target
  directory should end the program with \<open>Error: ... Try: c -h\<close> and status 1.
  \<open>parseTargets\<close> takes the default values \<open>.\<close> and \<open>*\<close> for "not given
  yet": after the directory \<open>.\<close> a second directory is accepted and replaces it, and
  after the pattern \<open>*\<close> a second pattern is accepted. With the arguments \<open>. sub\<close>
  the program lists \<open>sub\<close> and exits with status 0.
\<close>

theorem second_directory_accepted:
  "parseTargets testEnv [''.'', ''sub''] = Inr (''sub'', ''*'', []) \<and>
   main testEnv [''.'', ''sub''] = main testEnv [''sub''] \<and>
   (\<exists>out. main testEnv [''.'', ''sub''] = Exit 0 out) \<and>
   parseTargets testEnv [''*'', ''*.txt''] = Inr (''.'', ''*.txt'', [])"
  by (simp add: run_eval fs_eval sample_extensions reset_def endl_def)

subsection \<open>The pause flag\<close>

lemma parseLoop_more_flags:
  "parseLoop args (d, p, fl0 @ fl) =
     (case parseLoop args (d, p, fl) of
        Inl m \<Rightarrow> Inl m
      | Inr (d', p', fl') \<Rightarrow> Inr (d', p', fl0 @ fl'))"
proof (induction args arbitrary: d p fl)
  case Nil
  show ?case by simp
next
  case (Cons arg rest)
  show ?case using Cons.IH [of d p "fl @ [arg]"] Cons.IH [of d arg fl] Cons.IH [of arg p fl]
    by simp
qed

lemma flagLoop_pause:
  "map_option core (flagLoop fl (f\<lparr>screenPause' := b\<rparr>)) = map_option core (flagLoop fl f)"
proof (induction fl arbitrary: f b)
  case Nil
  show ?case by (simp add: core_def)
next
  case (Cons flag rest)
  have swap:
    "f\<lparr>screenPause' := b, recursive' := True\<rparr> = f\<lparr>recursive' := True\<rparr>\<lparr>screenPause' := b\<rparr>"
    "f\<lparr>screenPause' := b, showTotalSize' := True\<rparr> = f\<lparr>showTotalSize' := True\<rparr>\<lparr>screenPause' := b\<rparr>"
    "f\<lparr>screenPause' := b, forceList' := True\<rparr> = f\<lparr>forceList' := True\<rparr>\<lparr>screenPause' := b\<rparr>"
    "f\<lparr>screenPause' := b, forceWide' := True\<rparr> = f\<lparr>forceWide' := True\<rparr>\<lparr>screenPause' := b\<rparr>"
    "f\<lparr>screenPause' := b, screenPause' := True\<rparr> = f\<lparr>screenPause' := True\<rparr>"
    by simp_all
  show ?case
    unfolding flagLoop.simps swap
    by (simp only: if_distrib [of "map_option core"] Cons.IH)
qed

lemma pause_ignored:
  assumes "args \<noteq> []"
  shows "main e (''-p'' # args) = main e args"
proof (cases "parseLoop args (''.'', ''*'', [])")
  case (Inl m)
  then have "parseLoop args (''.'', ''*'', [] @ [''-p'']) = Inl m"
    using parseLoop_more_flags [of args "''.''" "''*''" "[''-p'']" "[]"] by simp
  then show ?thesis using Inl assms
    by (simp add: main_def parseTargets_def knownFlags_def)
next
  case (Inr r)
  obtain d p fl where r: "r = (d, p, fl)" by (cases r) auto
  have more: "parseLoop args (''.'', ''*'', [] @ [''-p'']) = Inr (d, p, ''-p'' # fl)"
    using parseLoop_more_flags [of args "''.''" "''*''" "[''-p'']" "[]"] Inr r by simp
  show ?thesis
  proof (cases "directoryExists e d")
    case False
    then show ?thesis using Inr r more assms
      by (simp add: main_def parseTargets_def knownFlags_def)
  next
    case True
    let ?init = "\<lparr>recursive' = False, showTotalSize' = False, forceList' = False,
                   forceWide' = False, screenPause' = False\<rparr>"
    have p1: "parseTargets e args = Inr (d, p, fl)"
      using True Inr r assms by (simp add: parseTargets_def)
    have p2: "parseTargets e (''-p'' # args) = Inr (d, p, ''-p'' # fl)"
      using True more by (simp add: parseTargets_def knownFlags_def)
    have "flagLoop (''-p'' # fl) ?init = flagLoop fl (?init\<lparr>screenPause' := True\<rparr>)"
      by simp
    then have eq:
      "map_option core (flagLoop (''-p'' # fl) ?init) = map_option core (flagLoop fl ?init)"
      by (simp only: flagLoop_pause)
    show ?thesis
    proof (cases "flagLoop fl ?init")
      case None
      with eq have "flagLoop (''-p'' # fl) ?init = None" by simp
      with None p1 p2 show ?thesis by (simp add: main_def del: flagLoop.simps)
    next
      case (Some f)
      with eq obtain g where g: "flagLoop (''-p'' # fl) ?init = Some g" and "core g = core f"
        by (cases "flagLoop (''-p'' # fl) ?init") auto
      then have "recursive' g = recursive' f" "showTotalSize' g = showTotalSize' f"
        "forceList' g = forceList' f" "forceWide' g = forceWide' f"
        by (simp_all add: core_def)
      then show ?thesis unfolding main_def p1 p2 Let_def
        by (simp only: Some g sum.case prod.case option.case)
    qed
  qed
qed

text \<open>
  C7. The flag \<open>-p\<close> should make the program pause after each screen. \<open>main\<close>
  sets \<open>screenPause\<close> and never reads it, and nothing calls \<open>getKeyStroke\<close>: on a
  terminal of 4 rows the detailed listing of the sample directory takes 5 lines, and the
  program prints the same and exits the same with and without \<open>-p\<close>.
\<close>

theorem pause_flag_has_no_effect:
  "main (testEnv\<lparr>ws_row := 4\<rparr>) [''-p'', ''-l''] = main (testEnv\<lparr>ws_row := 4\<rparr>) [''-l''] \<and>
   (\<exists>out. main (testEnv\<lparr>ws_row := 4\<rparr>) [''-l''] = Exit 0 out \<and>
      length (filter (\<lambda>c. c = CHR 0x0A) out) = 5)"
proof -
  have "main (testEnv\<lparr>ws_row := 4\<rparr>) [''-p'', ''-l''] = main (testEnv\<lparr>ws_row := 4\<rparr>) [''-l'']"
    by (rule pause_ignored) simp
  moreover have "\<exists>out. main (testEnv\<lparr>ws_row := 4\<rparr>) [''-l''] = Exit 0 out \<and>
      length (filter (\<lambda>c. c = CHR 0x0A) out) = 5"
    by (simp add: run_eval fs_eval sample_extensions reset_def endl_def)
  ultimately show ?thesis by simp
qed

section \<open>The layout\<close>

lemma of_int_less_64:
  assumes "0 \<le> a" "a < 2 ^ 64" "n < 2 ^ 64"
  shows "(word_of_int a :: 64 word) < word_of_nat n \<longleftrightarrow> a < int n"
proof -
  have "(word_of_int a :: 64 word) = word_of_nat (nat a)" using assms(1) by simp
  moreover have "nat a < 2 ^ 64" using assms(1,2) by (simp add: nat_less_iff)
  ultimately have "(word_of_int a :: 64 word) < word_of_nat n \<longleftrightarrow> nat a < n"
    using assms(3) by (simp add: word_less_nat_alt unat_of_nat take_bit_nat_eq_self)
  then show ?thesis using assms(1) by auto
qed

text \<open>
  C2, as stated, fails: the test starts with \<open>!forceList\<close>, so with both flags set the
  detailed view is used.
\<close>

theorem force_both_counterexample:
  "\<not> useMultiColumn True True 30 24 \<and>
   displayEntries 80 [Node ''a.cpp'' (Some 0x81A4) 1000 ''2025-05-01 10:00:00'' False []]
       False False True True 24 =
     printEntries [Node ''a.cpp'' (Some 0x81A4) 1000 ''2025-05-01 10:00:00'' False []] False"
  by (simp add: useMultiColumn_def displayEntries_def)

text \<open>
  On a screen of 1 or 2 rows \<open>screenHeight - 3\<close> is negative; converted to an unsigned
  64-bit number it is larger than any entry count, so without \<open>forceWide\<close> the detailed
  view is used however many entries there are.
\<close>

lemma minus_two_64: "unat (- 2 :: 64 word) = 2 ^ 64 - 2"
  by simp

lemma minus_one_64: "unat (- 1 :: 64 word) = 2 ^ 64 - 1"
proof -
  have "(- 1 :: 64 word) = 18446744073709551615" by simp
  then show ?thesis by (simp only: unat_numeral) simp
qed

lemma tiny_screen_is_detailed:
  assumes "screenHeight = 1 \<or> screenHeight = 2" and "n < 2 ^ 64 - 2"
  shows "\<not> useMultiColumn forceList False n screenHeight"
proof -
  have a: "unat (word_of_nat n :: 64 word) = n"
    using assms(2) by (simp add: unat_of_nat take_bit_nat_eq_self)
  have "(word_of_int (screenHeight - 3) :: 64 word) = - 2 \<or>
      (word_of_int (screenHeight - 3) :: 64 word) = - 1"
    using assms(1) by auto
  then have "n < unat (word_of_int (screenHeight - 3) :: 64 word)"
    using assms(2) by (auto simp: minus_one_64 minus_two_64)
  then have "(word_of_nat n :: 64 word) < word_of_int (screenHeight - 3)"
    using a by (simp add: word_less_nat_alt)
  then have "(word_of_nat n :: 64 word) \<le> word_of_int (screenHeight - 3)"
    by (rule order.strict_implies_order)
  then show ?thesis by (simp add: useMultiColumn_def not_less)
qed

text \<open>
  C2, amended. On a screen of at least 3 rows, the multi-column rendering is used exactly
  when \<open>forceList\<close> is not set and either \<open>forceWide\<close> is set or the number of
  entries exceeds \<open>screenHeight - 3\<close>; otherwise the detailed rendering is used. So
  \<open>forceList\<close> wins when both flags are set.
\<close>

theorem layout_decision:
  assumes "3 \<le> screenHeight" and "screenHeight < 2 ^ 16" and "length allEntries < 2 ^ 64"
  shows "useMultiColumn forceList forceWide (length allEntries) screenHeight =
           (\<not> forceList \<and> (forceWide \<or> screenHeight - 3 < int (length allEntries))) \<and>
         displayEntries wscol allEntries rec tot forceList forceWide screenHeight =
           (if \<not> forceList \<and> (forceWide \<or> screenHeight - 3 < int (length allEntries))
            then displayMultiColumn wscol allEntries
            else printEntries allEntries (tot \<and> \<not> rec))"
proof -
  have "0 \<le> screenHeight - 3" "screenHeight - 3 < 2 ^ 64" using assms(1,2) by simp_all
  from of_int_less_64 [OF this assms(3)]
  have "useMultiColumn forceList forceWide (length allEntries) screenHeight =
           (\<not> forceList \<and> (forceWide \<or> screenHeight - 3 < int (length allEntries)))"
    by (simp add: useMultiColumn_def)
  then show ?thesis by (simp add: displayEntries_def)
qed

theorem layout_decision_witness:
  "(3::int) \<le> 24 \<and> (24::int) < 2 ^ 16 \<and>
   length (replicate 30 (Node ''a.cpp'' (Some 0x81A4) 1000 ''2025-05-01 10:00:00'' False [])) < 2 ^ 64 \<and>
   useMultiColumn False False
     (length (replicate 30 (Node ''a.cpp'' (Some 0x81A4) 1000 ''2025-05-01 10:00:00'' False []))) 24 \<and>
   displayEntries 80 (replicate 30 (Node ''a.cpp'' (Some 0x81A4) 1000 ''2025-05-01 10:00:00'' False []))
       False False False False 24 =
     displayMultiColumn 80 (replicate 30 (Node ''a.cpp'' (Some 0x81A4) 1000 ''2025-05-01 10:00:00'' False []))"
proof -
  let ?es = "replicate 30 (Node ''a.cpp'' (Some 0x81A4) 1000 ''2025-05-01 10:00:00'' False [])"
  have a: "(3::int) \<le> 24" and b: "(24::int) < 2 ^ 16" and c: "length ?es < 2 ^ 64"
    by simp_all
  from layout_decision [OF a b c, of False False 80 False False]
  have "useMultiColumn False False (length ?es) 24" and
    "displayEntries 80 ?es False False False False 24 = displayMultiColumn 80 ?es"
    by simp_all
  with a b c show ?thesis by simp
qed

subsection \<open>The grid on a narrow terminal\<close>

text \<open>
  C4. The number of rows should be well defined for every terminal width.
  \<open>displayMultiColumn\<close> divides by \<open>numColumns = maxWidth / 18\<close>, which is 0 on a
  terminal of 1 to 17 columns: with 10 columns the division by zero ends the program.
\<close>

theorem narrow_terminal_division_by_zero:
  "displayMultiColumn 10 [Node ''a.cpp'' (Some 0x81A4) 1000 ''2025-05-01 10:00:00'' False []]
     = Inl DivisionByZero \<and>
   main (testEnv\<lparr>ws_col := 10\<rparr>) [''-w''] = Abort DivisionByZero"
  by (simp add: run_eval fs_eval sample_extensions reset_def endl_def)

section \<open>The order of a listing\<close>

subsection \<open>Sorting\<close>

lemma mset_insert_sorted: "mset (insert_sorted lt x ys) = add_mset x (mset ys)"
  by (induction ys) auto

lemma mset_insertions:
  "mset (foldl (\<lambda>sorted x. insert_sorted lt x sorted) ys xs) = mset ys + mset xs"
  by (induction xs arbitrary: ys) (simp_all add: mset_insert_sorted)

lemma mset_std_sort: "mset (std_sort lt xs) = mset xs"
  by (simp add: std_sort_def mset_insertions)

lemma set_std_sort: "set (std_sort lt xs) = set xs"
  using mset_std_sort [of lt xs] by (metis set_mset_mset)





subsection \<open>The comparison lambdas order as the specification says\<close>







subsection \<open>The scan keeps the matching entries, directories apart from files\<close>

lemma scanLoop_partition:
  "scanLoop fnm pattern rec tot cs (ds, fs, c) = Inr (ds', fs', c') \<Longrightarrow>
     ds' = ds @ filter is_directory (filter (\<lambda>e. pattern = [] \<or> fnm pattern (name e)) cs) \<and>
     fs' = fs @ filter (\<lambda>e. \<not> is_directory e)
                  (filter (\<lambda>e. pattern = [] \<or> fnm pattern (name e)) cs)"
proof (induction cs arbitrary: ds fs c)
  case Nil
  then show ?case by simp
next
  case (Cons entry rest)
  show ?case
  proof (cases "pattern \<noteq> [] \<and> \<not> fnm pattern (name entry)")
    case True
    with Cons.prems have "scanLoop fnm pattern rec tot rest (ds, fs, c) = Inr (ds', fs', c')"
      by simp
    from Cons.IH [OF this] True show ?thesis by auto
  next
    case False
    show ?thesis
    proof (cases "is_directory entry")
      case True
      with False Cons.prems obtain c0 where
        "scanLoop fnm pattern rec tot rest (ds @ [entry], fs, c0) = Inr (ds', fs', c')"
        by auto
      from Cons.IH [OF this] False True show ?thesis by auto
    next
      case nd: False
      with False Cons.prems obtain c0 where
        "scanLoop fnm pattern rec tot rest (ds, fs @ [entry], c0) = Inr (ds', fs', c')"
        by (auto split: sum.splits)
      from Cons.IH [OF this] False nd show ?thesis by auto
    qed
  qed
qed




subsection \<open>The sample directories\<close>

lemma sample_nodes [simp]:
  "name (sampleFile nm sz) = nm" "name (sampleProgram nm sz) = nm"
  "name (sampleDirectory nm es) = nm"
  "is_directory (sampleFile nm sz) = False" "is_directory (sampleProgram nm sz) = False"
  "is_directory (sampleDirectory nm es) = True"
  "is_regular_file (sampleFile nm sz) = True" "is_regular_file (sampleProgram nm sz) = True"
  "owner_exec (sampleFile nm sz) = False" "owner_exec (sampleProgram nm sz) = True"
  "file_size (sampleFile nm sz) = Inr sz" "file_size (sampleProgram nm sz) = Inr sz"
  "children (sampleDirectory nm es) = es"
  by (simp_all add: sampleFile_def sampleProgram_def sampleDirectory_def is_directory_def
      is_regular_file_def owner_exec_def file_size_def S_IFMT_def S_IFDIR_def S_IFREG_def
      S_IXUSR_def)














section \<open>Directory totals\<close>

subsection \<open>What the scan adds\<close>

lemma directory_not_regular: "is_directory x \<Longrightarrow> \<not> is_regular_file x"
  by (auto simp: is_directory_def is_regular_file_def S_IFDIR_def S_IFREG_def split: option.splits)

lemma scanLoop_total:
  "scanLoop fnm pattern rec tot cs (ds, fs, c) = Inr (ds', fs', c') \<Longrightarrow>
     totalSizeShown c' =
       totalSizeShown c +
       sum_list (map st_size
         (filter (\<lambda>x. (pattern = [] \<or> fnm pattern (name x)) \<and> \<not> is_directory x) cs)) +
       (if tot \<and> \<not> rec
        then sum_list (map calculateDirectorySize
               (filter (\<lambda>x. (pattern = [] \<or> fnm pattern (name x)) \<and> is_directory x) cs))
        else 0)"
proof (induction cs arbitrary: ds fs c)
  case Nil
  then show ?case by simp
next
  case (Cons entry rest)
  show ?case
  proof (cases "pattern \<noteq> [] \<and> \<not> fnm pattern (name entry)")
    case True
    with Cons.prems have "scanLoop fnm pattern rec tot rest (ds, fs, c) = Inr (ds', fs', c')"
      by simp
    from Cons.IH [OF this] True show ?thesis by auto
  next
    case False
    show ?thesis
    proof (cases "is_directory entry")
      case True
      define c0 where "c0 = c\<lparr>totalDirs := totalDirs c + 1,
             totalSizeShown :=
               (if tot \<and> \<not> rec
                then totalSizeShown c + calculateDirectorySize entry
                else totalSizeShown c)\<rparr>"
      have "scanLoop fnm pattern rec tot (entry # rest) (ds, fs, c) =
          scanLoop fnm pattern rec tot rest (ds @ [entry], fs, c0)"
        unfolding c0_def by (simp only: scanLoop.simps if_not_P [OF False] if_P [OF True])
      with Cons.prems
      have "scanLoop fnm pattern rec tot rest (ds @ [entry], fs, c0) = Inr (ds', fs', c')"
        by simp
      from Cons.IH [OF this] False True show ?thesis by (auto simp: c0_def)
    next
      case nd: False
      with False Cons.prems obtain sz where sz: "file_size entry = Inr sz"
        by (auto split: sum.splits)
      then have st: "sz = st_size entry" by (auto simp: file_size_def split: if_splits)
      define c0 where "c0 = c\<lparr>totalFiles := totalFiles c + 1,
          totalSizeShown := totalSizeShown c + sz\<rparr>"
      have "scanLoop fnm pattern rec tot (entry # rest) (ds, fs, c) =
          scanLoop fnm pattern rec tot rest (ds, fs @ [entry], c0)"
        unfolding c0_def
        by (simp only: scanLoop.simps if_not_P [OF False] if_not_P [OF nd] sz sum.case)
      with Cons.prems
      have "scanLoop fnm pattern rec tot rest (ds, fs @ [entry], c0) = Inr (ds', fs', c')"
        by simp
      from Cons.IH [OF this] False nd st show ?thesis by (auto simp: c0_def)
    qed
  qed
qed

lemma scanLoop_regular:
  "scanLoop fnm pattern rec tot cs (ds, fs, c) = Inr (ds', fs', c') \<Longrightarrow>
     x \<in> set cs \<Longrightarrow> pattern = [] \<or> fnm pattern (name x) \<Longrightarrow> \<not> is_directory x \<Longrightarrow>
     is_regular_file x"
proof (induction cs arbitrary: ds fs c)
  case Nil
  then show ?case by simp
next
  case (Cons entry rest)
  show ?case
  proof (cases "pattern \<noteq> [] \<and> \<not> fnm pattern (name entry)")
    case True
    with Cons.prems have "scanLoop fnm pattern rec tot rest (ds, fs, c) = Inr (ds', fs', c')"
      and "x \<in> set rest" by auto
    from Cons.IH [OF this] Cons.prems show ?thesis by simp
  next
    case False
    show ?thesis
    proof (cases "is_directory entry")
      case True
      with False Cons.prems obtain c0 where
        "scanLoop fnm pattern rec tot rest (ds @ [entry], fs, c0) = Inr (ds', fs', c')"
        and "x \<in> set rest" by auto
      from Cons.IH [OF this] Cons.prems show ?thesis by simp
    next
      case nd: False
      with False Cons.prems obtain sz where sz: "file_size entry = Inr sz"
        by (auto split: sum.splits)
      then have reg: "is_regular_file entry" by (auto simp: file_size_def split: if_splits)
      show ?thesis
      proof (cases "x = entry")
        case True
        with reg show ?thesis by simp
      next
        case False
        with Cons.prems have xr: "x \<in> set rest" by simp
        from nd \<open>\<not> (pattern \<noteq> [] \<and> \<not> fnm pattern (name entry))\<close> Cons.prems sz obtain c0 where
          "scanLoop fnm pattern rec tot rest (ds, fs @ [entry], c0) = Inr (ds', fs', c')"
          by auto
        from Cons.IH [OF this xr] Cons.prems show ?thesis by simp
      qed
    qed
  qed
qed

text \<open>With \<open>recursive\<close> set the scan does not look at \<open>showTotalSize\<close>.\<close>

lemma scanLoop_recursive:
  "scanLoop fnm pattern True tot cs acc = scanLoop fnm pattern True False cs acc"
proof (induction cs arbitrary: acc)
  case Nil
  show ?case by simp
next
  case (Cons entry rest)
  obtain ds fs c where acc: "acc = (ds, fs, c)" by (cases acc)
  show ?case unfolding acc scanLoop.simps Cons.IH by simp
qed

subsection \<open>What is printed\<close>

lemma printEntry_directory:
  assumes "is_directory entry"
  shows "printEntry entry flag =
     Inr (emojiOf True Other @
          (if isHidden entry then [CHR 0x1B] @ ''[1;30m'' else getColor Other True) @
          setw_left 20 (name entry) @ '' '' @ getPermissions entry @
          (if flag then totalColumn entry else []) @ reset @ endl,
          if flag then calculateDirectorySize entry else 0)"
  using assms directory_not_regular [OF assms] by (simp add: printEntry_def)

text \<open>The detailed rendering is the lines of \<open>printEntry\<close>, called with the flag it got.\<close>

lemma printEntries_lines:
  "printEntries es flag = Inr out \<longleftrightarrow>
     (\<exists>lines. list_all2 (\<lambda>x l. \<exists>sz. printEntry x flag = Inr (l, sz)) es lines \<and>
        out = concat lines)"
proof (induction es arbitrary: out)
  case Nil
  show ?case by auto
next
  case (Cons entry rest)
  show ?case
  proof
    assume "printEntries (entry # rest) flag = Inr out"
    then obtain l sz out' where one: "printEntry entry flag = Inr (l, sz)"
      and two: "printEntries rest flag = Inr out'" and out: "out = l @ out'"
      by (auto split: sum.splits)
    from two Cons.IH [of out'] obtain lines where
      "list_all2 (\<lambda>x l. \<exists>sz. printEntry x flag = Inr (l, sz)) rest lines" "out' = concat lines"
      by blast
    with one out have
      "list_all2 (\<lambda>x l. \<exists>sz. printEntry x flag = Inr (l, sz)) (entry # rest) (l # lines) \<and>
       out = concat (l # lines)"
      by auto
    then show "\<exists>lines. list_all2 (\<lambda>x l. \<exists>sz. printEntry x flag = Inr (l, sz)) (entry # rest) lines \<and>
        out = concat lines" by blast
  next
    assume "\<exists>lines. list_all2 (\<lambda>x l. \<exists>sz. printEntry x flag = Inr (l, sz)) (entry # rest) lines \<and>
        out = concat lines"
    then obtain l lines sz where one: "printEntry entry flag = Inr (l, sz)"
      and rest: "list_all2 (\<lambda>x l. \<exists>sz. printEntry x flag = Inr (l, sz)) rest lines"
      and out: "out = l @ concat lines"
      by (auto simp: list_all2_Cons1)
    from rest Cons.IH [of "concat lines"] have "printEntries rest flag = Inr (concat lines)"
      by blast
    with one out show "printEntries (entry # rest) flag = Inr out" by simp
  qed
qed

text \<open>
  The grid is the cells of the entries, row by row; a cell shows the glyph and the name
  of its entry.
\<close>

lemma upto_nat: "0 \<le> n \<Longrightarrow> [0..n - 1] = map int [0..<nat n]"
proof (induction "nat n" arbitrary: n)
  case 0
  then show ?case by simp
next
  case (Suc k)
  then have n: "n = int k + 1" by linarith
  have "[0..int k] = [0..int k - 1] @ [int k]"
    using upto_rec2 [of 0 "int k"] by simp
  moreover have "[0..int k - 1] = map int [0..<nat (int k)]"
    using Suc.hyps(1) [of "int k"] by simp
  moreover have "nat (int k + 1) = Suc k" by simp
  ultimately show ?case unfolding n by (simp del: upt_Suc add: upt_Suc_append)
qed

lemma cells_of_row:
  "concat (map (\<lambda>j. if m + j < length es then g (es ! (m + j)) else []) [0..<k])
     = concat (map g (take k (drop m es)))"
proof (induction k)
  case 0
  show ?case by simp
next
  case (Suc k)
  show ?case
  proof (cases "m + k < length es")
    case True
    then have "take (Suc k) (drop m es) = take k (drop m es) @ [es ! (m + k)]"
      by (simp add: take_Suc_conv_app_nth)
    with True Suc.IH show ?thesis by simp
  next
    case False
    then have "take (Suc k) (drop m es) = take k (drop m es)" by simp
    with False Suc.IH show ?thesis by simp
  qed
qed

lemma gridRow_cells:
  assumes "0 < numColumns"
  shows "gridRow es numColumns (int r) =
     concat (map cell (take (nat numColumns) (drop (r * nat numColumns) es))) @ endl"
proof -
  define k where "k = nat numColumns"
  have nc: "numColumns = int k" using assms by (simp add: k_def)
  have "gridRow es numColumns (int r) =
      concat (map (\<lambda>j. if r * k + j < length es then cell (es ! (r * k + j)) else []) [0..<k])
        @ endl"
    unfolding gridRow_def nc
    by (simp add: upto_nat Let_def comp_def nat_int_add flip: of_nat_mult of_nat_add
        cong: if_cong)
  then show ?thesis unfolding cells_of_row k_def .
qed

lemma rows_cover:
  "concat (map (\<lambda>r. take k (drop (r * k) es)) [0..<n]) = take (n * k) es"
proof (induction n)
  case 0
  show ?case by simp
next
  case (Suc n)
  have "take (n * k + k) es = take (n * k) es @ take k (drop (n * k) es)"
    by (rule take_add)
  with Suc.IH show ?case by (simp add: add.commute)
qed

lemma grid_rows:
  assumes "displayMultiColumn wscol es = Inr out"
  shows "\<exists>rows. concat rows = es \<and> out = concat (map (\<lambda>r. concat (map cell r) @ endl) rows)"
proof -
  define nc where "nc = (if 0 < wscol then uint wscol else 80) div 18"
  define n where "n = nat ((int (length es) + nc - 1) div nc)"
  have width: "0 \<le> (if 0 < wscol then uint wscol else 80)" by simp
  from assms have nz: "nc \<noteq> 0"
    by (auto simp: displayMultiColumn_def nc_def Let_def split: if_splits)
  moreover have "0 \<le> nc" unfolding nc_def using width by (simp add: pos_imp_zdiv_nonneg_iff)
  ultimately have pos: "0 < nc" by simp
  have rowsnn: "0 \<le> (int (length es) + nc - 1) div nc"
    using pos by (simp add: pos_imp_zdiv_nonneg_iff)
  define rows where "rows = map (\<lambda>r. take (nat nc) (drop (r * nat nc) es)) [0..<n]"
  from assms nz have "out = concat (map (gridRow es nc) [0..(int (length es) + nc - 1) div nc - 1])"
    by (simp add: displayMultiColumn_def nc_def Let_def)
  also have "\<dots> = concat (map (gridRow es nc) (map int [0..<n]))"
    using upto_nat [OF rowsnn] by (simp add: n_def)
  also have "\<dots> = concat (map (\<lambda>r. concat (map cell r) @ endl) rows)"
    by (simp add: rows_def comp_def gridRow_cells [OF pos])
  finally have out: "out = concat (map (\<lambda>r. concat (map cell r) @ endl) rows)" .
  have "int (length es) \<le> (int (length es) + nc - 1) div nc * nc"
  proof -
    have "(int (length es) + nc - 1) div nc * nc =
        int (length es) + nc - 1 - (int (length es) + nc - 1) mod nc"
      by (simp add: minus_mod_eq_div_mult)
    moreover have "(int (length es) + nc - 1) mod nc < nc" using pos by simp
    ultimately show ?thesis by linarith
  qed
  then have "int (length es) \<le> int (n * nat nc)"
    using pos rowsnn by (simp add: n_def)
  then have "length es \<le> n * nat nc" by linarith
  then have "concat rows = es" by (simp add: rows_def rows_cover)
  with out show ?thesis by blast
qed

subsection \<open>The total of a whole listing\<close>

lemma sum_list_perm:
  fixes f :: "'a \<Rightarrow> 64 word"
  assumes "mset xs = mset ys"
  shows "sum_list (map f xs) = sum_list (map f ys)"
proof -
  have "sum_list (map f zs) = sum_mset (image_mset f (mset zs))" for zs
    by (metis mset_map sum_mset_sum_list)
  then show ?thesis using assms by simp
qed

lemma sum_list_split:
  fixes g :: "'a \<Rightarrow> 64 word"
  shows "sum_list (map g xs) =
     sum_list (map g (filter P xs)) + sum_list (map g (filter (\<lambda>x. \<not> P x) xs))"
  by (induction xs) auto

lemma subdirectories_total:
  assumes IH: "\<And>x path c out c'. x \<in> set dirs \<Longrightarrow>
      listDirectoryContents e path x pattern True tot fl fw c h = Inr (out, c') \<Longrightarrow>
      totalSizeShown c' = totalSizeShown c + g x"
  shows "listSubdirectories e path dirs pattern True tot fl fw c h = Inr (out, c') \<Longrightarrow>
     totalSizeShown c' = totalSizeShown c + sum_list (map g dirs)"
  using IH
proof (induction dirs arbitrary: c out)
  case Nil
  then show ?case by simp
next
  case (Cons dir dirs)
  from Cons.prems(1) obtain o1 c1 o2 where
    one: "listDirectoryContents e (entryPath path dir) dir pattern True tot fl fw c h = Inr (o1, c1)"
    and two: "listSubdirectories e path dirs pattern True tot fl fw c1 h = Inr (o2, c')"
    by (auto simp del: listDirectoryContents.simps split: sum.splits)
  have "totalSizeShown c1 = totalSizeShown c + g dir"
    using Cons.prems(2) [OF _ one] by simp
  moreover have "totalSizeShown c' = totalSizeShown c1 + sum_list (map g dirs)"
    using Cons.IH [OF two] Cons.prems(2) by simp
  ultimately show ?case by simp
qed

lemma filesScanned_sizes:
  "sum_list (map st_size (filesScanned fnm pattern (Node nm md sz mt lnk cs))) =
     sum_list (map st_size
       (filter (\<lambda>x. (pattern = [] \<or> fnm pattern (name x)) \<and> \<not> is_directory x) cs)) +
     sum_list (map (\<lambda>x. sum_list (map st_size (filesScanned fnm pattern x)))
       (filter (\<lambda>x. (pattern = [] \<or> fnm pattern (name x)) \<and> is_directory x) cs))"
  unfolding filesScanned.simps by (induction cs) auto

lemma recursive_scanned:
  "listDirectoryContents e path d pattern True tot fl fw c h = Inr (out, c') \<Longrightarrow>
     totalSizeShown c' =
       totalSizeShown c + sum_list (map st_size (filesScanned (fnmatch e) pattern d))"
proof (induction d arbitrary: path c out c')
  case (Node nm md sz mt lnk cs)
  define M where "M = (\<lambda>x. pattern = [] \<or> fnmatch e pattern (name x))"
  define g where "g = (\<lambda>x. sum_list (map st_size (filesScanned (fnmatch e) pattern x)))"
  from Node.prems obtain ds0 fs0 c1 where
    scan: "scanLoop (fnmatch e) pattern True tot cs ([], [], c) = Inr (ds0, fs0, c1)"
    by (auto split: sum.splits)
  with Node.prems obtain o2 where
    sub: "listSubdirectories e path (std_sort directoryLess ds0) pattern True tot fl fw c1 h
        = Inr (o2, c')"
    by (auto simp: Let_def split: sum.splits)
  from scanLoop_partition [OF scan] have ds0: "ds0 = filter (\<lambda>x. M x \<and> is_directory x) cs"
    by (simp add: M_def conj_commute)
  from scanLoop_total [OF scan]
  have c1: "totalSizeShown c1 =
      totalSizeShown c + sum_list (map st_size (filter (\<lambda>x. M x \<and> \<not> is_directory x) cs))"
    by (simp add: M_def)
  have "set (std_sort directoryLess ds0) \<subseteq> set cs" by (simp add: set_std_sort ds0)
  then have "totalSizeShown c' = totalSizeShown c1 + sum_list (map g (std_sort directoryLess ds0))"
    using subdirectories_total [OF _ sub, of g] Node.IH unfolding g_def by blast
  also have "sum_list (map g (std_sort directoryLess ds0)) = sum_list (map g ds0)"
    by (rule sum_list_perm) (rule mset_std_sort)
  finally have "totalSizeShown c' =
      totalSizeShown c + sum_list (map st_size (filter (\<lambda>x. M x \<and> \<not> is_directory x) cs)) +
      sum_list (map g (filter (\<lambda>x. M x \<and> is_directory x) cs))"
    using c1 by (simp add: ds0)
  then show ?case
    unfolding filesScanned_sizes g_def M_def by simp
qed

lemma directory_size_split:
  assumes reg: "\<And>x. x \<in> set cs \<Longrightarrow> \<not> is_directory x \<Longrightarrow> is_regular_file x"
    and real: "\<And>x. x \<in> set cs \<Longrightarrow> is_directory x \<Longrightarrow> \<not> is_symlink x"
  shows "calculateDirectorySize (Node nm md sz mt lnk cs) =
     sum_list (map st_size (filter (\<lambda>x. \<not> is_directory x) cs)) +
     sum_list (map calculateDirectorySize (filter is_directory cs))"
proof -
  let ?g = "\<lambda>x. (if is_regular_file x then st_size x else 0) +
                 (if is_directory x \<and> \<not> is_symlink x then calculateDirectorySize x else 0)"
  have dirs: "map ?g (filter is_directory cs) = map calculateDirectorySize (filter is_directory cs)"
    by (rule map_cong) (auto dest: directory_not_regular real)
  have files: "map ?g (filter (\<lambda>x. \<not> is_directory x) cs)
      = map st_size (filter (\<lambda>x. \<not> is_directory x) cs)"
    by (rule map_cong) (auto dest: reg)
  have "calculateDirectorySize (Node nm md sz mt lnk cs) = sum_list (map ?g cs)" by simp
  also have "\<dots> = sum_list (map ?g (filter is_directory cs)) +
      sum_list (map ?g (filter (\<lambda>x. \<not> is_directory x) cs))"
    by (rule sum_list_split)
  also have "\<dots> = sum_list (map calculateDirectorySize (filter is_directory cs)) +
      sum_list (map st_size (filter (\<lambda>x. \<not> is_directory x) cs))"
    by (simp only: dirs files)
  finally show ?thesis by (simp only: add.commute)
qed

lemma recursive_total:
  assumes every: "\<And>n. pattern = [] \<or> fnmatch e pattern n"
  shows "noDirectoryLinks d \<Longrightarrow>
     listDirectoryContents e path d pattern True tot fl fw c h = Inr (out, c') \<Longrightarrow>
     totalSizeShown c' = totalSizeShown c + calculateDirectorySize d"
proof (induction d arbitrary: path c out c')
  case (Node nm md sz mt lnk cs)
  from Node.prems(2) obtain ds0 fs0 c1 where
    scan: "scanLoop (fnmatch e) pattern True tot cs ([], [], c) = Inr (ds0, fs0, c1)"
    by (auto split: sum.splits)
  with Node.prems(2) obtain o2 where
    sub: "listSubdirectories e path (std_sort directoryLess ds0) pattern True tot fl fw c1 h
        = Inr (o2, c')"
    by (auto simp: Let_def split: sum.splits)
  have M: "filter (\<lambda>x. (pattern = [] \<or> fnmatch e pattern (name x)) \<and> Q x) cs = filter Q cs" for Q
    using every by (intro filter_cong) auto
  from scanLoop_partition [OF scan] have ds0: "ds0 = filter is_directory cs"
    using every by (simp add: M [of "\<lambda>x. True", simplified])
  from scanLoop_total [OF scan]
  have c1: "totalSizeShown c1 =
      totalSizeShown c + sum_list (map st_size (filter (\<lambda>x. \<not> is_directory x) cs))"
    by (simp add: M)
  have links: "\<not> is_symlink x \<and> noDirectoryLinks x" if "x \<in> set cs" "is_directory x" for x
    using Node.prems(1) that by (simp add: list_all_iff)
  have "\<And>x path c out c'. x \<in> set (std_sort directoryLess ds0) \<Longrightarrow>
      listDirectoryContents e path x pattern True tot fl fw c h = Inr (out, c') \<Longrightarrow>
      totalSizeShown c' = totalSizeShown c + calculateDirectorySize x"
    using Node.IH links by (simp add: set_std_sort ds0)
  then have "totalSizeShown c' =
      totalSizeShown c1 + sum_list (map calculateDirectorySize (std_sort directoryLess ds0))"
    using sub by (rule subdirectories_total)
  also have "sum_list (map calculateDirectorySize (std_sort directoryLess ds0))
      = sum_list (map calculateDirectorySize (filter is_directory cs))"
    using sum_list_perm [OF mset_std_sort] by (simp add: ds0)
  finally have total: "totalSizeShown c' =
      totalSizeShown c + sum_list (map st_size (filter (\<lambda>x. \<not> is_directory x) cs)) +
      sum_list (map calculateDirectorySize (filter is_directory cs))"
    using c1 by simp
  have "is_regular_file x" if "x \<in> set cs" "\<not> is_directory x" for x
    using scanLoop_regular [OF scan that(1) every that(2)] .
  moreover have "\<not> is_symlink x" if "x \<in> set cs" "is_directory x" for x
    using links that by simp
  ultimately have "calculateDirectorySize (Node nm md sz mt lnk cs) =
     sum_list (map st_size (filter (\<lambda>x. \<not> is_directory x) cs)) +
     sum_list (map calculateDirectorySize (filter is_directory cs))"
    by (rule directory_size_split)
  with total show ?case by simp
qed

lemma flat_scanned:
  assumes run: "listDirectoryContents e path d pattern False tot fl fw c h = Inr (out, c')"
  shows "totalSizeShown c' =
      totalSizeShown c +
      sum_list (map st_size
        (filter (\<lambda>x. (pattern = [] \<or> fnmatch e pattern (name x)) \<and> \<not> is_directory x)
           (children d))) +
      (if tot
       then sum_list (map calculateDirectorySize
              (filter (\<lambda>x. (pattern = [] \<or> fnmatch e pattern (name x)) \<and> is_directory x)
                 (children d)))
       else 0)"
proof -
  from run obtain ds0 fs0 where
    scan: "scanLoop (fnmatch e) pattern False tot (children d) ([], [], c) = Inr (ds0, fs0, c')"
    by (auto simp: Let_def split: sum.splits)
  from scanLoop_total [OF scan] show ?thesis by simp
qed

lemma flat_total:
  assumes every: "\<And>n. pattern = [] \<or> fnmatch e pattern n"
    and real: "\<And>x. x \<in> set (children d) \<Longrightarrow> is_directory x \<Longrightarrow> \<not> is_symlink x"
    and run: "listDirectoryContents e path d pattern False True fl fw c h = Inr (out, c')"
  shows "totalSizeShown c' = totalSizeShown c + calculateDirectorySize d"
proof -
  obtain nm md sz mt lnk cs where d: "d = Node nm md sz mt lnk cs" by (cases d)
  from run obtain ds0 fs0 where
    scan: "scanLoop (fnmatch e) pattern False True cs ([], [], c) = Inr (ds0, fs0, c')"
    by (auto simp: d Let_def split: sum.splits)
  have M: "filter (\<lambda>x. (pattern = [] \<or> fnmatch e pattern (name x)) \<and> Q x) cs = filter Q cs" for Q
    using every by (intro filter_cong) auto
  from scanLoop_total [OF scan]
  have total: "totalSizeShown c' =
      totalSizeShown c + sum_list (map st_size (filter (\<lambda>x. \<not> is_directory x) cs)) +
      sum_list (map calculateDirectorySize (filter is_directory cs))"
    by (simp add: M)
  have "is_regular_file x" if "x \<in> set cs" "\<not> is_directory x" for x
    using scanLoop_regular [OF scan that(1) every that(2)] .
  moreover have "\<not> is_symlink x" if "x \<in> set cs" "is_directory x" for x
    using real that by (simp add: d)
  ultimately have "calculateDirectorySize (Node nm md sz mt lnk cs) =
     sum_list (map st_size (filter (\<lambda>x. \<not> is_directory x) cs)) +
     sum_list (map calculateDirectorySize (filter is_directory cs))"
    by (rule directory_size_split)
  with total show ?thesis by (simp add: d)
qed

text \<open>With \<open>recursive\<close> set, \<open>showTotalSize\<close> changes nothing at any depth.\<close>

lemma subdirectories_recursive:
  assumes "\<And>x path c. x \<in> set dirs \<Longrightarrow>
      listDirectoryContents e path x pattern True tot fl fw c h =
      listDirectoryContents e path x pattern True False fl fw c h"
  shows "listSubdirectories e path dirs pattern True tot fl fw c h =
     listSubdirectories e path dirs pattern True False fl fw c h"
  using assms
proof (induction dirs arbitrary: c)
  case Nil
  show ?case by simp
next
  case (Cons dir dirs)
  have one: "listDirectoryContents e (entryPath path dir) dir pattern True tot fl fw c h =
      listDirectoryContents e (entryPath path dir) dir pattern True False fl fw c h"
    using Cons.prems by simp
  have two: "listSubdirectories e path dirs pattern True tot fl fw c1 h =
      listSubdirectories e path dirs pattern True False fl fw c1 h" for c1
    using Cons.IH Cons.prems by simp
  show ?case
    unfolding listSubdirectories.simps one two ..
qed

lemma recursive_ignores_total:
  "listDirectoryContents e path d pattern True tot fl fw c h =
   listDirectoryContents e path d pattern True False fl fw c h"
proof (induction d arbitrary: path c)
  case (Node nm md sz mt lnk cs)
  have disp: "displayEntries w es True tot fl fw h = displayEntries w es True False fl fw h"
    for w es
    by (simp add: displayEntries_def)
  have sub: "listSubdirectories e path (std_sort directoryLess ds0) pattern True tot fl fw c1 h =
      listSubdirectories e path (std_sort directoryLess ds0) pattern True False fl fw c1 h"
    if "set ds0 \<subseteq> set cs" for ds0 c1
    using that Node.IH by (intro subdirectories_recursive) (auto simp: set_std_sort)
  show ?case
  proof (cases "scanLoop (fnmatch e) pattern True False cs ([], [], c)")
    case (Inl f)
    then show ?thesis by (simp add: scanLoop_recursive [of _ _ tot])
  next
    case (Inr r)
    obtain ds0 fs0 c1 where r: "r = (ds0, fs0, c1)" by (cases r)
    from scanLoop_partition [OF Inr [unfolded r]] have "set ds0 \<subseteq> set cs" by auto
    then have s: "listSubdirectories e path (std_sort directoryLess ds0) pattern True tot fl fw
        c1 h =
      listSubdirectories e path (std_sort directoryLess ds0) pattern True False fl fw c1 h"
      by (rule sub)
    show ?thesis
      by (simp add: scanLoop_recursive [of _ _ tot] Inr r disp Let_def s
          cong: sum.case_cong if_cong)
  qed
qed

subsection \<open>The claim\<close>

text \<open>
  C6. At every level the scan adds the recursive size of a matching directory to the
  running total exactly when \<open>showTotalSize\<close> is set and \<open>recursive\<close> is not; the
  files always add their own sizes. \<open>printEntry\<close> computes and prints the total of a
  directory exactly when its flag is set, the detailed rendering is the lines of
  \<open>printEntry\<close> called with \<open>showTotalSize && !recursive\<close>, and the multi-column
  rendering is the cells of the entries, which show a glyph and a name. With \<open>recursive\<close>
  set, \<open>showTotalSize\<close> changes nothing in the output or in the counters, at any depth:
  the total grows by the sizes of the files that the listing finds, every one counted once,
  which is the recursive size of the listed directory when the pattern matches every name
  and no directory below is a symbolic link (the lister follows such a link,
  \<open>calculateDirectorySize\<close> does not). Without \<open>recursive\<close> the total grows by the
  sizes of the matching files and, with \<open>showTotalSize\<close>, by the recursive sizes of the
  matching directories; when the pattern matches every name and no entry is a symbolic
  link to a directory this is the recursive size of the listed directory, too.
\<close>

theorem directory_totals:
  "(scanLoop fnm pattern rec tot entries (ds, fs, c) = Inr (ds', fs', c') \<longrightarrow>
      totalSizeShown c' =
        totalSizeShown c +
        sum_list (map st_size
          (filter (\<lambda>x. (pattern = [] \<or> fnm pattern (name x)) \<and> \<not> is_directory x) entries)) +
        (if tot \<and> \<not> rec
         then sum_list (map calculateDirectorySize
                (filter (\<lambda>x. (pattern = [] \<or> fnm pattern (name x)) \<and> is_directory x) entries))
         else 0)) \<and>
   (is_directory entry \<longrightarrow>
      printEntry entry flag =
        Inr (emojiOf True Other @
             (if isHidden entry then [CHR 0x1B] @ ''[1;30m'' else getColor Other True) @
             setw_left 20 (name entry) @ '' '' @ getPermissions entry @
             (if flag then totalColumn entry else []) @ reset @ endl,
             if flag then calculateDirectorySize entry else 0)) \<and>
   (\<not> useMultiColumn fl fw (length allEntries) h \<longrightarrow>
      (displayEntries wscol allEntries rec tot fl fw h = Inr shown \<longleftrightarrow>
       (\<exists>lines.
          list_all2 (\<lambda>x l. \<exists>sz. printEntry x (tot \<and> \<not> rec) = Inr (l, sz)) allEntries lines \<and>
          shown = concat lines))) \<and>
   (useMultiColumn fl fw (length allEntries) h \<longrightarrow>
      displayEntries wscol allEntries rec tot fl fw h = displayMultiColumn wscol allEntries \<and>
      (displayMultiColumn wscol allEntries = Inr shown \<longrightarrow>
       (\<exists>rows. concat rows = allEntries \<and>
          shown = concat (map (\<lambda>r. concat (map cell r) @ endl) rows)))) \<and>
   listDirectoryContents e path d pattern True tot fl fw before h =
     listDirectoryContents e path d pattern True False fl fw before h \<and>
   (listDirectoryContents e path d pattern True tot fl fw before h = Inr (out, after) \<longrightarrow>
      totalSizeShown after =
        totalSizeShown before + sum_list (map st_size (filesScanned (fnmatch e) pattern d)) \<and>
      ((\<forall>n. pattern = [] \<or> fnmatch e pattern n) \<and> noDirectoryLinks d \<longrightarrow>
         totalSizeShown after = totalSizeShown before + calculateDirectorySize d)) \<and>
   (listDirectoryContents e path d pattern False tot fl fw before h = Inr (out, after) \<longrightarrow>
      totalSizeShown after =
        totalSizeShown before +
        sum_list (map st_size
          (filter (\<lambda>x. (pattern = [] \<or> fnmatch e pattern (name x)) \<and> \<not> is_directory x)
             (children d))) +
        (if tot
         then sum_list (map calculateDirectorySize
                (filter (\<lambda>x. (pattern = [] \<or> fnmatch e pattern (name x)) \<and> is_directory x)
                   (children d)))
         else 0) \<and>
      (tot \<and> (\<forall>n. pattern = [] \<or> fnmatch e pattern n) \<and>
       (\<forall>x \<in> set (children d). is_directory x \<longrightarrow> \<not> is_symlink x) \<longrightarrow>
         totalSizeShown after = totalSizeShown before + calculateDirectorySize d))"
proof -
  have scan: "scanLoop fnm pattern rec tot entries (ds, fs, c) = Inr (ds', fs', c') \<longrightarrow>
      totalSizeShown c' =
        totalSizeShown c +
        sum_list (map st_size
          (filter (\<lambda>x. (pattern = [] \<or> fnm pattern (name x)) \<and> \<not> is_directory x) entries)) +
        (if tot \<and> \<not> rec
         then sum_list (map calculateDirectorySize
                (filter (\<lambda>x. (pattern = [] \<or> fnm pattern (name x)) \<and> is_directory x) entries))
         else 0)"
    using scanLoop_total by blast
  have print: "is_directory entry \<longrightarrow>
      printEntry entry flag =
        Inr (emojiOf True Other @
             (if isHidden entry then [CHR 0x1B] @ ''[1;30m'' else getColor Other True) @
             setw_left 20 (name entry) @ '' '' @ getPermissions entry @
             (if flag then totalColumn entry else []) @ reset @ endl,
             if flag then calculateDirectorySize entry else 0)"
    using printEntry_directory by blast
  have detailed: "\<not> useMultiColumn fl fw (length allEntries) h \<longrightarrow>
      (displayEntries wscol allEntries rec tot fl fw h = Inr shown \<longleftrightarrow>
       (\<exists>lines.
          list_all2 (\<lambda>x l. \<exists>sz. printEntry x (tot \<and> \<not> rec) = Inr (l, sz)) allEntries lines \<and>
          shown = concat lines))"
    by (simp add: displayEntries_def printEntries_lines)
  have grid: "useMultiColumn fl fw (length allEntries) h \<longrightarrow>
      displayEntries wscol allEntries rec tot fl fw h = displayMultiColumn wscol allEntries \<and>
      (displayMultiColumn wscol allEntries = Inr shown \<longrightarrow>
       (\<exists>rows. concat rows = allEntries \<and>
          shown = concat (map (\<lambda>r. concat (map cell r) @ endl) rows)))"
    using grid_rows [of wscol allEntries shown] by (simp add: displayEntries_def)
  have same: "listDirectoryContents e path d pattern True tot fl fw before h =
     listDirectoryContents e path d pattern True False fl fw before h"
    by (rule recursive_ignores_total)
  have deep: "listDirectoryContents e path d pattern True tot fl fw before h = Inr (out, after) \<longrightarrow>
      totalSizeShown after =
        totalSizeShown before + sum_list (map st_size (filesScanned (fnmatch e) pattern d)) \<and>
      ((\<forall>n. pattern = [] \<or> fnmatch e pattern n) \<and> noDirectoryLinks d \<longrightarrow>
         totalSizeShown after = totalSizeShown before + calculateDirectorySize d)"
  proof (intro impI conjI)
    assume run: "listDirectoryContents e path d pattern True tot fl fw before h = Inr (out, after)"
    then show "totalSizeShown after =
        totalSizeShown before + sum_list (map st_size (filesScanned (fnmatch e) pattern d))"
      by (rule recursive_scanned)
    assume a: "(\<forall>n. pattern = [] \<or> fnmatch e pattern n) \<and> noDirectoryLinks d"
    then have "pattern = [] \<or> fnmatch e pattern n" for n by blast
    from recursive_total [OF this _ run] a
    show "totalSizeShown after = totalSizeShown before + calculateDirectorySize d" by blast
  qed
  have flat: "listDirectoryContents e path d pattern False tot fl fw before h = Inr (out, after) \<longrightarrow>
      totalSizeShown after =
        totalSizeShown before +
        sum_list (map st_size
          (filter (\<lambda>x. (pattern = [] \<or> fnmatch e pattern (name x)) \<and> \<not> is_directory x)
             (children d))) +
        (if tot
         then sum_list (map calculateDirectorySize
                (filter (\<lambda>x. (pattern = [] \<or> fnmatch e pattern (name x)) \<and> is_directory x)
                   (children d)))
         else 0) \<and>
      (tot \<and> (\<forall>n. pattern = [] \<or> fnmatch e pattern n) \<and>
       (\<forall>x \<in> set (children d). is_directory x \<longrightarrow> \<not> is_symlink x) \<longrightarrow>
         totalSizeShown after = totalSizeShown before + calculateDirectorySize d)"
  proof (intro impI conjI)
    assume run: "listDirectoryContents e path d pattern False tot fl fw before h = Inr (out, after)"
    then show "totalSizeShown after =
        totalSizeShown before +
        sum_list (map st_size
          (filter (\<lambda>x. (pattern = [] \<or> fnmatch e pattern (name x)) \<and> \<not> is_directory x)
             (children d))) +
        (if tot
         then sum_list (map calculateDirectorySize
                (filter (\<lambda>x. (pattern = [] \<or> fnmatch e pattern (name x)) \<and> is_directory x)
                   (children d)))
         else 0)"
      by (rule flat_scanned)
    assume a: "tot \<and> (\<forall>n. pattern = [] \<or> fnmatch e pattern n) \<and>
       (\<forall>x \<in> set (children d). is_directory x \<longrightarrow> \<not> is_symlink x)"
    then have every: "pattern = [] \<or> fnmatch e pattern n" for n by blast
    from a have real: "\<not> is_symlink x" if "x \<in> set (children d)" "is_directory x" for x
      using that by blast
    from a run have "listDirectoryContents e path d pattern False True fl fw before h
        = Inr (out, after)" by simp
    with every real
    show "totalSizeShown after = totalSizeShown before + calculateDirectorySize d"
      by (rule flat_total)
  qed
  from scan print detailed grid same deep flat show ?thesis by (intro conjI)
qed

lemma linked_names:
  "toLower (extension ''data.txt'') = ''.txt''" "toLower (extension ''memo.txt'') = ''.txt''"
  "toLower (extension ''link'') = ''''"
  "toLower ''data.txt'' = ''data.txt''" "toLower ''memo.txt'' = ''memo.txt''"
  "toLower ''link'' = ''link''"
  by code_simp+

theorem directory_totals_witness:
  "(\<exists>ds fs c. scanLoop glob ''*'' True True (children rootDir)
        ([], [], \<lparr>totalFiles = 0, totalDirs = 0, totalSizeShown = 0\<rparr>) = Inr (ds, fs, c) \<and>
      totalSizeShown c = 3048) \<and>
   (\<exists>ds fs c. scanLoop glob ''*'' False True (children rootDir)
        ([], [], \<lparr>totalFiles = 0, totalDirs = 0, totalSizeShown = 0\<rparr>) = Inr (ds, fs, c) \<and>
      totalSizeShown c = 3058) \<and>
   is_directory subDir \<and> calculateDirectorySize subDir = 10 \<and>
   (\<exists>line. printEntry subDir True = Inr (line @ totalColumn subDir @ reset @ endl, 10) \<and>
      printEntry subDir False = Inr (line @ reset @ endl, 0) \<and>
      \<not> useMultiColumn False False (length [subDir]) 24 \<and>
      displayEntries 80 [subDir] False True False False 24
        = Inr (line @ totalColumn subDir @ reset @ endl) \<and>
      displayEntries 80 [subDir] True True False False 24 = Inr (line @ reset @ endl)) \<and>
   useMultiColumn False True (length [subDir]) 24 \<and>
   (\<exists>rows. concat rows = [subDir] \<and>
      displayEntries 80 [subDir] False True False True 24
        = Inr (concat (map (\<lambda>r. concat (map cell r) @ endl) rows))) \<and>
   listDirectoryContents testEnv ''.'' rootDir ''*'' True True False False
       \<lparr>totalFiles = 0, totalDirs = 0, totalSizeShown = 0\<rparr> 24 =
     listDirectoryContents testEnv ''.'' rootDir ''*'' True False False False
       \<lparr>totalFiles = 0, totalDirs = 0, totalSizeShown = 0\<rparr> 24 \<and>
   (\<forall>n. fnmatch testEnv ''*'' n) \<and> noDirectoryLinks rootDir \<and>
   calculateDirectorySize rootDir = 3058 \<and>
   (\<exists>out c. listDirectoryContents testEnv ''.'' rootDir ''*'' True True False False
        \<lparr>totalFiles = 0, totalDirs = 0, totalSizeShown = 0\<rparr> 24 = Inr (out, c) \<and>
      totalSizeShown c = 3058) \<and>
   (\<exists>out c. listDirectoryContents testEnv ''.'' rootDir ''*s*'' True True False False
        \<lparr>totalFiles = 0, totalDirs = 0, totalSizeShown = 0\<rparr> 24 = Inr (out, c) \<and>
      totalSizeShown c = 10) \<and>
   \<not> noDirectoryLinks linkedDir \<and> calculateDirectorySize linkedDir = 110 \<and>
   (\<exists>out c. listDirectoryContents testEnv ''top'' linkedDir ''*'' True True False False
        \<lparr>totalFiles = 0, totalDirs = 0, totalSizeShown = 0\<rparr> 24 = Inr (out, c) \<and>
      totalSizeShown c = 117) \<and>
   (\<exists>out c. listDirectoryContents testEnv ''.'' rootDir ''*'' False True False False
        \<lparr>totalFiles = 0, totalDirs = 0, totalSizeShown = 0\<rparr> 24 = Inr (out, c) \<and>
      totalSizeShown c = 3058) \<and>
   (\<exists>out c. listDirectoryContents testEnv ''.'' rootDir ''*'' False False False False
        \<lparr>totalFiles = 0, totalDirs = 0, totalSizeShown = 0\<rparr> 24 = Inr (out, c) \<and>
      totalSizeShown c = 3048)"
proof -
  let ?zero = "\<lparr>totalFiles = 0, totalDirs = 0, totalSizeShown = 0\<rparr>"
  note nodes = rootDir_def subDir_def linkedDir_def is_regular_file_def is_directory_def
    file_size_def S_IFMT_def S_IFREG_def S_IFDIR_def
  have every: "\<forall>n. ''*'' = [] \<or> fnmatch testEnv ''*'' n" by (simp add: testEnv_def)
  have p_every: "\<forall>n. fnmatch testEnv ''*'' n" by (simp add: testEnv_def)
  have fnm: "fnmatch testEnv = glob" by (simp add: testEnv_def)
  have sub: "calculateDirectorySize subDir = 10" by (simp add: nodes)
  have root: "calculateDirectorySize rootDir = 3058" by (simp add: nodes)
  have linked: "calculateDirectorySize linkedDir = 110" by (simp add: nodes)
  have real: "noDirectoryLinks rootDir" by (simp add: nodes)
  have unreal: "\<not> noDirectoryLinks linkedDir" by (simp add: nodes)
  have kids: "\<forall>x \<in> set (children rootDir). is_directory x \<longrightarrow> \<not> is_symlink x"
    by (simp add: nodes)
  have small: "\<not> useMultiColumn False False (length [subDir]) 24"
    by (simp add: useMultiColumn_def)
  have wide: "useMultiColumn False True (length [subDir]) 24"
    by (simp add: useMultiColumn_def)
  obtain ds1 fs1 c1 where scan1: "scanLoop glob ''*'' True True (children rootDir) ([], [], ?zero)
      = Inr (ds1, fs1, c1)"
    by (simp add: nodes)
  from directory_totals [THEN conjunct1, THEN mp, OF scan1]
  have "totalSizeShown c1 = 3048" by (simp add: nodes)
  with scan1 have w1: "\<exists>ds fs c. scanLoop glob ''*'' True True (children rootDir) ([], [], ?zero)
      = Inr (ds, fs, c) \<and> totalSizeShown c = 3048" by blast
  obtain ds2 fs2 c2 where scan2: "scanLoop glob ''*'' False True (children rootDir) ([], [], ?zero)
      = Inr (ds2, fs2, c2)"
    by (simp add: nodes)
  from directory_totals [THEN conjunct1, THEN mp, OF scan2]
  have "totalSizeShown c2 = 3058" by (simp add: nodes)
  with scan2 have w2: "\<exists>ds fs c. scanLoop glob ''*'' False True (children rootDir) ([], [], ?zero)
      = Inr (ds, fs, c) \<and> totalSizeShown c = 3058" by blast

  define line where "line = emojiOf True Other @
      (if isHidden subDir then [CHR 0x1B] @ ''[1;30m'' else getColor Other True) @
      setw_left 20 (name subDir) @ '' '' @ getPermissions subDir"
  from directory_totals [where flag = True, THEN conjunct2, THEN conjunct1, THEN mp, OF is_directory_subDir]
  have pT: "printEntry subDir True = Inr (line @ totalColumn subDir @ reset @ endl, 10)"
    by (simp add: sub line_def)
  from directory_totals [where flag = False, THEN conjunct2, THEN conjunct1, THEN mp, OF is_directory_subDir]
  have pF: "printEntry subDir False = Inr (line @ reset @ endl, 0)"
    by (simp add: line_def)
  from directory_totals [where rec = False and tot = True and wscol = 80
      and shown = "line @ totalColumn subDir @ reset @ endl", THEN conjunct2, THEN conjunct2, THEN conjunct1,
      THEN mp, OF small] pT
  have dT: "displayEntries 80 [subDir] False True False False 24
      = Inr (line @ totalColumn subDir @ reset @ endl)"
    by (simp add: list_all2_Cons1)
  from directory_totals [where rec = True and tot = True and wscol = 80
      and shown = "line @ reset @ endl", THEN conjunct2, THEN conjunct2, THEN conjunct1,
      THEN mp, OF small] pF
  have dF: "displayEntries 80 [subDir] True True False False 24 = Inr (line @ reset @ endl)"
    by (simp add: list_all2_Cons1)
  from pT pF small dT dF
  have w3: "\<exists>line. printEntry subDir True = Inr (line @ totalColumn subDir @ reset @ endl, 10) \<and>
      printEntry subDir False = Inr (line @ reset @ endl, 0) \<and>
      \<not> useMultiColumn False False (length [subDir]) 24 \<and>
      displayEntries 80 [subDir] False True False False 24
        = Inr (line @ totalColumn subDir @ reset @ endl) \<and>
      displayEntries 80 [subDir] True True False False 24 = Inr (line @ reset @ endl)"
    by blast
  obtain grid where g: "displayMultiColumn 80 [subDir] = Inr grid"
    by (simp add: displayMultiColumn_def)
  from directory_totals [where rec = False and tot = True and wscol = 80 and shown = grid,
      THEN conjunct2, THEN conjunct2, THEN conjunct2,
      THEN conjunct1, THEN mp, OF wide] g
  have w4: "\<exists>rows. concat rows = [subDir] \<and>
      displayEntries 80 [subDir] False True False True 24
        = Inr (concat (map (\<lambda>r. concat (map cell r) @ endl) rows))"
    by auto

  from directory_totals [where e = testEnv and path = "''.''" and d = rootDir
      and pattern = "''*''" and tot = True and fl = False and fw = False and before = ?zero
      and h = 24, THEN conjunct2, THEN conjunct2, THEN conjunct2, THEN conjunct2,
      THEN conjunct1]
  have w5: "listDirectoryContents testEnv ''.'' rootDir ''*'' True True False False ?zero 24 =
     listDirectoryContents testEnv ''.'' rootDir ''*'' True False False False ?zero 24"
    by blast
  obtain o1 a1 where deep: "listDirectoryContents testEnv ''.'' rootDir ''*'' True True False
      False ?zero 24 = Inr (o1, a1)"
    by (simp add: run_eval fs_eval sample_extensions reset_def endl_def)
  from directory_totals [THEN conjunct2, THEN conjunct2, THEN conjunct2, THEN conjunct2, THEN conjunct2,
      THEN conjunct1, THEN mp, OF deep, THEN conjunct2,
      THEN mp, OF conjI [OF every real]]
  have "totalSizeShown a1 = 3058" by (simp add: root)
  with deep have w6: "\<exists>out c. listDirectoryContents testEnv ''.'' rootDir ''*'' True True False
      False ?zero 24 = Inr (out, c) \<and> totalSizeShown c = 3058" by blast
  obtain o2 a2 where some: "listDirectoryContents testEnv ''.'' rootDir ''*s*'' True True False
      False ?zero 24 = Inr (o2, a2)"
    by (simp add: run_eval fs_eval sample_extensions reset_def endl_def)
  from directory_totals [THEN conjunct2, THEN conjunct2, THEN conjunct2, THEN conjunct2, THEN conjunct2,
      THEN conjunct1, THEN mp, OF some, THEN conjunct1]
  have "totalSizeShown a2 = 10" by (simp add: fnm nodes)
  with some have w7: "\<exists>out c. listDirectoryContents testEnv ''.'' rootDir ''*s*'' True True False
      False ?zero 24 = Inr (out, c) \<and> totalSizeShown c = 10" by blast
  obtain o3 a3 where link: "listDirectoryContents testEnv ''top'' linkedDir ''*'' True True False
      False ?zero 24 = Inr (o3, a3)"
    by (simp add: run_eval linkedDir_def fs_eval sample_extensions linked_names reset_def
        endl_def)
  from directory_totals [THEN conjunct2, THEN conjunct2, THEN conjunct2, THEN conjunct2, THEN conjunct2,
      THEN conjunct1, THEN mp, OF link, THEN conjunct1]
  have "totalSizeShown a3 = 117" by (simp add: fnm nodes)
  with link have w8: "\<exists>out c. listDirectoryContents testEnv ''top'' linkedDir ''*'' True True
      False False ?zero 24 = Inr (out, c) \<and> totalSizeShown c = 117" by blast
  obtain o4 a4 where flat: "listDirectoryContents testEnv ''.'' rootDir ''*'' False True False
      False ?zero 24 = Inr (o4, a4)"
    by (simp add: run_eval fs_eval sample_extensions reset_def endl_def)
  from directory_totals [THEN conjunct2, THEN conjunct2, THEN conjunct2, THEN conjunct2, THEN conjunct2, THEN conjunct2,
      THEN mp, OF flat, THEN conjunct2,
      THEN mp, OF conjI [OF TrueI conjI [OF every kids]]]
  have "totalSizeShown a4 = 3058" by (simp add: root)
  with flat have w9: "\<exists>out c. listDirectoryContents testEnv ''.'' rootDir ''*'' False True False
      False ?zero 24 = Inr (out, c) \<and> totalSizeShown c = 3058" by blast
  obtain o5 a5 where plain: "listDirectoryContents testEnv ''.'' rootDir ''*'' False False False
      False ?zero 24 = Inr (o5, a5)"
    by (simp add: run_eval fs_eval sample_extensions reset_def endl_def)
  from directory_totals [THEN conjunct2, THEN conjunct2, THEN conjunct2, THEN conjunct2, THEN conjunct2, THEN conjunct2,
      THEN mp, OF plain, THEN conjunct1]
  have "totalSizeShown a5 = 3048" by (simp add: fnm nodes)
  with plain have w10: "\<exists>out c. listDirectoryContents testEnv ''.'' rootDir ''*'' False False
      False False ?zero 24 = Inr (out, c) \<and> totalSizeShown c = 3048" by blast
  show ?thesis
    by (intro conjI w1 w2 is_directory_subDir sub w3 wide w4 w5 p_every real root w6 w7 unreal
        linked w8 w9 w10)
qed

end
